theory Spec2Isabelle
  imports Complex_Main
begin

section \<open>The synthesizer component of \<^verbatim>\<open>src/components/Synth.js\<close>\<close>

text \<open>
  The component keeps two kinds of state. React state (\<^verbatim>\<open>useState\<close>) is read by
  every function through the closure of the render that created it, and a call of a setter
  only takes effect in the next render. Refs (\<^verbatim>\<open>useRef\<close>) and the Web Audio nodes
  they point to are mutated in place. Both live in one record; every function below takes
  the render snapshot \<open>r\<close>, from which it reads React state only, and threads the
  state \<open>s\<close> that it updates and from which it reads the refs.

  JavaScript numbers are modelled as reals. \<^verbatim>\<open>audioContext.currentTime\<close> does not
  advance while a handler runs, so it is the parameter \<open>now\<close> of every function.
\<close>

subsection \<open>Parameter records (\<^verbatim>\<open>DEFAULTS\<close>)\<close>

record synth_note =
  note_name :: string
  note_frequency :: "real option"

record lfo_params =
  lfo_frequency :: real
  lfo_level :: real
  lfo_destination :: string
  lfo_type :: string

record osc_params =
  osc_type :: string
  osc_detune :: real
  osc_octave :: real

record amp_params =
  amp_level :: real

record filter_params =
  filter_frequency :: real
  filter_q :: real

record delay_params =
  delay_time :: real
  delay_feedback :: real

record control_params =
  tempo :: real
  latch :: bool
  arp :: bool

record envelope_params =
  attack :: real
  decay :: real
  sustain :: real
  release :: real

subsection \<open>The audio graph\<close>

text \<open>
  An \<^verbatim>\<open>AudioParam\<close> is its \<^verbatim>\<open>value\<close> and the automation calls made on it, in
  call order, each with its value and time arguments.
\<close>

datatype automation =
    SetValueAtTime real real
  | LinearRampToValueAtTime real real
  | CancelAndHoldAtTime real

record audio_param =
  pvalue :: real
  events :: "automation list"

definition schedule :: "automation \<Rightarrow> audio_param \<Rightarrow> audio_param" where
  "schedule a p = p\<lparr>events := events p @ [a]\<rparr>"

record oscillator_node =
  on_type :: string
  on_detune :: audio_param
  on_frequency :: real
  on_started :: bool

text \<open>
  The shared nodes are the ones the refs hold; the oscillators and gain nodes that
  \<^verbatim>\<open>createOscillator\<close> allocates are numbered in allocation order.
\<close>

datatype node = Oscillator nat | Gain nat | LFO | LFOGain | Filter | Delay | Feedback | MainGain

datatype port = Input node | Detune nat | FilterFrequency | Destination

record voice =
  vca :: nat

datatype error = TypeError

subsection \<open>The state of the component\<close>

record synth =
  \<comment> \<open>React state\<close>
  currentNote :: "nat option"
  pressedKeys :: "synth_note list"
  pressedKeysId :: nat
  osc1 :: osc_params
  osc2 :: osc_params
  lfo :: lfo_params
  amp :: amp_params
  filter_state :: filter_params
  envelope :: envelope_params
  delay :: delay_params
  control :: control_params
  \<comment> \<open>refs\<close>
  voicesRef :: "string \<rightharpoonup> voice"
  mainGainRef :: real
  filterRef_frequency :: audio_param
  filterRef_Q :: audio_param
  delayRef :: real
  feedbackRef :: real
  envelopeRef :: envelope_params
  lfoRef_type :: string
  lfoRef_frequency :: audio_param
  lfoGainRef :: real
  arpClockRef :: bool
  \<comment> \<open>nodes allocated per voice, and the edges of the graph\<close>
  oscillators :: "nat \<Rightarrow> oscillator_node"
  osc_count :: nat
  vcas :: "nat \<Rightarrow> audio_param"
  vca_count :: nat
  connections :: "(node \<times> port) list"

text \<open>
  \<^verbatim>\<open>voicesRef.current\<close> is an array used as an object keyed by \<^verbatim>\<open>note.name\<close>, a
  map from names to voices; the names are those of the note table, for which the array has
  no property of its own.

  \<open>pressedKeysId\<close> is the identity of the array held in \<^verbatim>\<open>pressedKeys\<close>: every call of
  \<^verbatim>\<open>setPressedKeys\<close> in the source passes a freshly built array, and React compares effect
  dependencies with \<^verbatim>\<open>Object.is\<close>. \<open>arpClockRef\<close> tells whether the timeout
  stored in the ref is pending.
\<close>

definition setPressedKeys :: "synth_note list \<Rightarrow> synth \<Rightarrow> synth" where
  "setPressedKeys ks s = s\<lparr>pressedKeys := ks, pressedKeysId := Suc (pressedKeysId s)\<rparr>"

text \<open>\<^verbatim>\<open>a.connect(b)\<close> adds an edge once; \<^verbatim>\<open>a.disconnect()\<close> removes every edge leaving \<open>a\<close>.\<close>

definition add_edge :: "node \<times> port \<Rightarrow> (node \<times> port) list \<Rightarrow> (node \<times> port) list" where
  "add_edge e es = (if e \<in> set es then es else es @ [e])"

definition connect :: "node \<Rightarrow> port \<Rightarrow> synth \<Rightarrow> synth" where
  "connect a b s = s\<lparr>connections := add_edge (a, b) (connections s)\<rparr>"

definition disconnect :: "node \<Rightarrow> synth \<Rightarrow> synth" where
  "disconnect a s = s\<lparr>connections := filter (\<lambda>e. fst e \<noteq> a) (connections s)\<rparr>"

text \<open>The ports that the edges leaving \<open>a\<close> lead to.\<close>

definition targets :: "node \<Rightarrow> (node \<times> port) list \<Rightarrow> port list" where
  "targets a es = map snd (filter (\<lambda>e. fst e = a) es)"

definition outgoing :: "node \<Rightarrow> synth \<Rightarrow> port list" where
  "outgoing a s = targets a (connections s)"

subsection \<open>Defaults and the state after mounting\<close>

definition DEFAULTS_lfo :: lfo_params where
  "DEFAULTS_lfo = \<lparr>lfo_frequency = 1, lfo_level = 0, lfo_destination = ''filter'',
     lfo_type = ''triangle''\<rparr>"

definition DEFAULTS_osc1 :: osc_params where
  "DEFAULTS_osc1 = \<lparr>osc_type = ''sawtooth'', osc_detune = 0, osc_octave = 1\<rparr>"

definition DEFAULTS_osc2 :: osc_params where
  "DEFAULTS_osc2 = \<lparr>osc_type = ''square'', osc_detune = 0, osc_octave = 1\<rparr>"

definition DEFAULTS_amp :: amp_params where
  "DEFAULTS_amp = \<lparr>amp_level = 0.2\<rparr>"

definition DEFAULTS_filter :: filter_params where
  "DEFAULTS_filter = \<lparr>filter_frequency = 1500, filter_q = 0\<rparr>"

definition DEFAULTS_delay :: delay_params where
  "DEFAULTS_delay = \<lparr>delay_time = 0, delay_feedback = 0\<rparr>"

definition DEFAULTS_control :: control_params where
  "DEFAULTS_control = \<lparr>tempo = 90, latch = False, arp = False\<rparr>"

definition DEFAULTS_envelope :: envelope_params where
  "DEFAULTS_envelope = \<lparr>attack = 0, decay = 0.5, sustain = 0.2, release = 0\<rparr>"

text \<open>
  The state once the mount effect (lines 91 to 134) has built and wired the shared
  nodes, at time \<open>t0\<close>. A fresh \<^verbatim>\<open>AudioParam\<close> has no automation; a value the
  effect does not assign is the default of the Web Audio interface (350 and 1 for the
  filter, 440 for an oscillator). The stores of per-voice nodes hold a blank entry at
  every number not yet allocated.
\<close>

definition blank_param :: audio_param where
  "blank_param = \<lparr>pvalue = 0, events = []\<rparr>"

definition blank_oscillator :: oscillator_node where
  "blank_oscillator = \<lparr>on_type = ''sine'', on_detune = blank_param, on_frequency = 440,
     on_started = False\<rparr>"

definition mounted :: "real \<Rightarrow> synth" where
  "mounted t0 = \<lparr>
     currentNote = None,
     pressedKeys = [],
     pressedKeysId = 0,
     osc1 = DEFAULTS_osc1,
     osc2 = DEFAULTS_osc2,
     lfo = DEFAULTS_lfo,
     amp = DEFAULTS_amp,
     filter_state = DEFAULTS_filter,
     envelope = DEFAULTS_envelope,
     delay = DEFAULTS_delay,
     control = DEFAULTS_control,
     voicesRef = Map.empty,
     mainGainRef = amp_level DEFAULTS_amp,
     filterRef_frequency =
       \<lparr>pvalue = 350, events = [SetValueAtTime (filter_frequency DEFAULTS_filter) t0]\<rparr>,
     filterRef_Q = \<lparr>pvalue = 1, events = [SetValueAtTime (filter_q DEFAULTS_filter) t0]\<rparr>,
     delayRef = delay_time DEFAULTS_delay,
     feedbackRef = delay_feedback DEFAULTS_delay,
     envelopeRef = DEFAULTS_envelope,
     lfoRef_type = lfo_type DEFAULTS_lfo,
     lfoRef_frequency =
       \<lparr>pvalue = 440, events = [SetValueAtTime (lfo_frequency DEFAULTS_lfo) t0]\<rparr>,
     lfoGainRef = lfo_level DEFAULTS_lfo,
     arpClockRef = False,
     oscillators = (\<lambda>_. blank_oscillator),
     osc_count = 0,
     vcas = (\<lambda>_. blank_param),
     vca_count = 0,
     connections =
       [(LFO, Input LFOGain), (LFOGain, FilterFrequency),
        (Delay, Input Feedback), (Feedback, Input Delay),
        (Filter, Input Delay), (Filter, Input MainGain),
        (Delay, Input MainGain), (MainGain, Destination)]\<rparr>"

subsection \<open>Voices: \<^verbatim>\<open>destroyOscillator\<close> and \<^verbatim>\<open>createOscillator\<close>\<close>

text \<open>
  Lines 209 to 219. The voice is looked up in the ref; with no entry the function returns.
  Otherwise two calls are made on the gain of the voice's VCA, with the release of
  \<^verbatim>\<open>envelopeRef.current\<close>. Nothing else is touched.
\<close>

definition destroyOscillator :: "real \<Rightarrow> synth_note \<Rightarrow> synth \<Rightarrow> synth" where
  "destroyOscillator now n s =
     (case voicesRef s (note_name n) of
        None \<Rightarrow> s
      | Some v \<Rightarrow>
          s\<lparr>vcas := (vcas s)(vca v :=
               schedule (LinearRampToValueAtTime 0 (now + release (envelopeRef s)))
                 (schedule (CancelAndHoldAtTime now) (vcas s (vca v))))\<rparr>)"

text \<open>
  \<^verbatim>\<open>audioContext.createOscillator()\<close> followed by the assignments of lines 167 to 172
  (resp. 178 to 183): the new oscillator gets the next free number.
\<close>

definition newOscillator :: "real \<Rightarrow> osc_params \<Rightarrow> real \<Rightarrow> synth \<Rightarrow> synth" where
  "newOscillator now osc frequency s =
     s\<lparr>oscillators := (oscillators s)(osc_count s :=
          \<lparr>on_type = osc_type osc,
           on_detune = schedule (SetValueAtTime (osc_detune osc) now) blank_param,
           on_frequency = frequency * osc_octave osc,
           on_started = False\<rparr>),
       osc_count := Suc (osc_count s)\<rparr>"

definition start :: "nat \<Rightarrow> synth \<Rightarrow> synth" where
  "start i s = s\<lparr>oscillators := (oscillators s)(i := (oscillators s i)\<lparr>on_started := True\<rparr>)\<rparr>"

text \<open>
  Lines 189 to 201: the VCA, its gain set to 0 and the three automation calls. Attack and
  decay are read from \<^verbatim>\<open>envelopeRef.current\<close>, sustain from the React state
  \<^verbatim>\<open>envelope\<close>; the level of the first ramp is the literal 0.1.
\<close>

definition newVca :: "real \<Rightarrow> synth \<Rightarrow> synth \<Rightarrow> synth" where
  "newVca now r s =
     s\<lparr>vcas := (vcas s)(vca_count s :=
          schedule
            (LinearRampToValueAtTime (sustain (envelope r))
               (now + attack (envelopeRef s) + decay (envelopeRef s)))
            (schedule (LinearRampToValueAtTime 0.1 (now + attack (envelopeRef s)))
               (schedule (SetValueAtTime 0 now) \<lparr>pvalue = 0, events = []\<rparr>))),
       vca_count := Suc (vca_count s)\<rparr>"

text \<open>
  Lines 158 to 207. \<^verbatim>\<open>!frequency\<close> holds for a missing frequency and for 0.
\<close>

definition createOscillator :: "real \<Rightarrow> synth \<Rightarrow> synth_note \<Rightarrow> synth \<Rightarrow> synth" where
  "createOscillator now r n s =
     (case note_frequency n of
        None \<Rightarrow> s
      | Some frequency \<Rightarrow>
          if frequency = 0 then s
          else
            let s1 = (if voicesRef s (note_name n) \<noteq> None then destroyOscillator now n s else s);
                oscillator1 = osc_count s1;
                s2 = newOscillator now (osc1 r) frequency s1;
                s3 = (if lfo_destination (lfo r) = ''osc1''
                      then connect LFOGain (Detune oscillator1) s2 else s2);
                s4 = start oscillator1 s3;
                oscillator2 = osc_count s4;
                s5 = newOscillator now (osc2 r) frequency s4;
                s6 = (if lfo_destination (lfo r) = ''osc2''
                      then connect LFOGain (Detune oscillator2) s5 else s5);
                s7 = start oscillator2 s6;
                v = vca_count s7;
                s8 = newVca now r s7;
                s9 = connect (Oscillator oscillator1) (Input (Gain v)) s8;
                s10 = connect (Oscillator oscillator2) (Input (Gain v)) s9;
                s11 = connect (Gain v) (Input Filter) s10
            in s11\<lparr>voicesRef := (voicesRef s11)(note_name n \<mapsto> \<lparr>vca = v\<rparr>)\<rparr>)"

text \<open>
  Lines 397 to 405. The destructuring of \<^verbatim>\<open>voicesRef.current[note.name]\<close> throws a
  \<^verbatim>\<open>TypeError\<close> when the entry is undefined. The release is read from the React state.
\<close>

definition playArpNote :: "real \<Rightarrow> synth \<Rightarrow> synth_note \<Rightarrow> synth \<Rightarrow> error + synth" where
  "playArpNote now r n s =
     (let s1 = createOscillator now r n s in
      case voicesRef s1 (note_name n) of
        None \<Rightarrow> Inl TypeError
      | Some v \<Rightarrow>
          Inr (s1\<lparr>vcas := (vcas s1)(vca v :=
                 schedule (LinearRampToValueAtTime 0 (now + release (envelope r) + 1))
                   (schedule (CancelAndHoldAtTime (now + 1)) (vcas s1 (vca v))))\<rparr>))"

subsection \<open>Parameter handlers\<close>

text \<open>
  Lines 221 to 242. \<^verbatim>\<open>lfoRef.current.frequency\<close> is an \<^verbatim>\<open>AudioParam\<close> object, never
  identical to a number, so the frequency is scheduled on every call.
\<close>

definition handleLFOChange :: "real \<Rightarrow> synth \<Rightarrow> lfo_params \<Rightarrow> synth \<Rightarrow> synth" where
  "handleLFOChange now r newLFO s =
     (let s1 = (if lfo_destination (lfo r) \<noteq> lfo_destination newLFO
                then (let d = disconnect LFOGain s in
                      if lfo_destination newLFO = ''filter''
                      then connect LFOGain FilterFrequency d else d)
                else s);
          s2 = (if lfoGainRef s1 \<noteq> lfo_level newLFO
                then s1\<lparr>lfoGainRef := lfo_level newLFO\<rparr> else s1);
          s3 = (if lfoRef_type s2 \<noteq> lfo_type newLFO
                then s2\<lparr>lfoRef_type := lfo_type newLFO\<rparr> else s2);
          s4 = s3\<lparr>lfoRef_frequency :=
                 schedule (SetValueAtTime (lfo_frequency newLFO) now) (lfoRef_frequency s3)\<rparr>
      in s4\<lparr>lfo := newLFO\<rparr>)"

definition handleOsc1Change :: "osc_params \<Rightarrow> synth \<Rightarrow> synth" where
  "handleOsc1Change newOsc s = s\<lparr>osc1 := newOsc\<rparr>"

definition handleOsc2Change :: "osc_params \<Rightarrow> synth \<Rightarrow> synth" where
  "handleOsc2Change newOsc s = s\<lparr>osc2 := newOsc\<rparr>"

definition handleAmpChange :: "amp_params \<Rightarrow> synth \<Rightarrow> synth" where
  "handleAmpChange newAmp s =
     (let s1 = (if mainGainRef s \<noteq> amp_level newAmp
                then s\<lparr>mainGainRef := amp_level newAmp\<rparr> else s)
      in s1\<lparr>amp := newAmp\<rparr>)"

definition handleFilterChange :: "real \<Rightarrow> synth \<Rightarrow> filter_params \<Rightarrow> synth \<Rightarrow> synth" where
  "handleFilterChange now r newFilter s =
     (let s1 = (if filter_frequency newFilter \<noteq> filter_frequency (filter_state r)
                then s\<lparr>filterRef_frequency :=
                       schedule (SetValueAtTime (filter_frequency newFilter) now)
                         (filterRef_frequency s)\<rparr>
                else s);
          s2 = (if filter_q newFilter \<noteq> filter_q (filter_state r)
                then s1\<lparr>filterRef_Q :=
                        schedule (SetValueAtTime (filter_q newFilter) now) (filterRef_Q s1)\<rparr>
                else s1)
      in s2\<lparr>filter_state := newFilter\<rparr>)"

definition handleEnvelopeChange :: "envelope_params \<Rightarrow> synth \<Rightarrow> synth" where
  "handleEnvelopeChange newEnvelope s = s\<lparr>envelopeRef := newEnvelope, envelope := newEnvelope\<rparr>"

definition handleDelayChange :: "synth \<Rightarrow> delay_params \<Rightarrow> synth \<Rightarrow> synth" where
  "handleDelayChange r newDelay s =
     (let s1 = (if delay_time newDelay \<noteq> delay_time (delay r)
                then s\<lparr>delayRef := delay_time newDelay\<rparr> else s);
          s2 = (if delay_feedback newDelay \<noteq> delay_feedback (delay r)
                then s1\<lparr>feedbackRef := delay_feedback newDelay\<rparr> else s1)
      in s2\<lparr>delay := newDelay\<rparr>)"

subsection \<open>Keys, latch and arpeggiator\<close>

text \<open>
  Lines 332 to 339. \<^verbatim>\<open>pressedKeys\<close> is the array of the render, so the keys that are
  set are the render's keys without the note, whatever was set before in the same handler.
\<close>

definition stopNote :: "real \<Rightarrow> synth \<Rightarrow> synth_note \<Rightarrow> bool \<Rightarrow> synth \<Rightarrow> synth" where
  "stopNote now r n force s =
     (if latch (control r) \<and> \<not> force then s
      else setPressedKeys (filter (\<lambda>k. note_name k \<noteq> note_name n) (pressedKeys r))
             (destroyOscillator now n s))"

text \<open>Lines 313 to 330.\<close>

definition playNote :: "real \<Rightarrow> synth \<Rightarrow> synth_note \<Rightarrow> synth \<Rightarrow> synth" where
  "playNote now r n s =
     (let notePressed = find (\<lambda>k. note_name k = note_name n) (pressedKeys r);
          s1 = (if latch (control r) \<and> notePressed \<noteq> None then stopNote now r n True s else s)
      in if notePressed \<noteq> None then s1
         else
           let s2 = setPressedKeys (pressedKeys r @ [n]) s1
           in if arp (control r) then s2 else createOscillator now r n s2)"

text \<open>Lines 252 to 273. Each \<^verbatim>\<open>forEach\<close> runs over the keys of the render.\<close>

definition handleControlChange :: "real \<Rightarrow> synth \<Rightarrow> control_params \<Rightarrow> synth \<Rightarrow> synth" where
  "handleControlChange now r newControl s =
     (let s1 = (if latch (control r) \<noteq> latch newControl \<and> \<not> latch newControl
                then setPressedKeys []
                       (foldl (\<lambda>h k. stopNote now r k True h) s (pressedKeys r))
                else s);
          s2 = (if arp newControl \<and> arp newControl \<noteq> arp (control r)
                then foldl (\<lambda>h k. destroyOscillator now k h)
                       (s1\<lparr>currentNote := Some 0\<rparr>) (pressedKeys r)
                else if arp newControl \<noteq> arp (control r)
                then (let h = (if latch newControl
                               then foldl (\<lambda>h k. createOscillator now r k h) s1 (pressedKeys r)
                               else s1)
                      in h\<lparr>currentNote := None\<rparr>)
                else s1)
      in s2\<lparr>control := newControl\<rparr>)"

text \<open>The \<^verbatim>\<open>Escape\<close> branch of \<^verbatim>\<open>handleKeyDown\<close>, lines 344 to 349.\<close>

definition handleEscape :: "real \<Rightarrow> synth \<Rightarrow> synth \<Rightarrow> synth" where
  "handleEscape now r s =
     setPressedKeys [] (foldl (\<lambda>h k. stopNote now r k True h) s (pressedKeys r))"

text \<open>
  The arpeggiator effect, lines 136 to 156. \<^verbatim>\<open>pressedKeys[i]\<close> is undefined beyond the
  end of the array; \<^verbatim>\<open>currentNote\<close> is falsy when it is null or 0.
\<close>

definition at_index :: "'a list \<Rightarrow> nat \<Rightarrow> 'a option" where
  "at_index xs i = (if i < length xs then Some (xs ! i) else None)"

definition arpNote :: "synth \<Rightarrow> synth_note option" where
  "arpNote r =
     (case currentNote r of
        None \<Rightarrow> at_index (pressedKeys r) 0
      | Some i \<Rightarrow> if i = 0 then at_index (pressedKeys r) 0 else at_index (pressedKeys r) i)"

text \<open>
  One run of the effect in the render \<open>r\<close>: the cleanup of the previous run clears the
  pending timeout, then the body plays the selected note, if there is one, and sets a new
  timeout.
\<close>

definition arpEffect :: "real \<Rightarrow> synth \<Rightarrow> error + synth" where
  "arpEffect now r =
     (let s = r\<lparr>arpClockRef := False\<rparr> in
      if arp (control r) \<and> length (pressedKeys r) > 0 then
        (case arpNote r of
           None \<Rightarrow> Inr (s\<lparr>arpClockRef := True\<rparr>)
         | Some n \<Rightarrow>
             (case playArpNote now r n s of
                Inl e \<Rightarrow> Inl e
              | Inr s' \<Rightarrow> Inr (s'\<lparr>arpClockRef := True\<rparr>)))
      else Inr s)"

text \<open>
  The callback of the timeout, lines 143 to 150, when the timeout is pending. In
  JavaScript \<^verbatim>\<open>null + 1\<close> is 1.
\<close>

definition arpTimeout :: "synth \<Rightarrow> synth \<Rightarrow> synth" where
  "arpTimeout r s =
     (if arpClockRef s then
        (let nextNote = (case currentNote r of None \<Rightarrow> 1 | Some i \<Rightarrow> i + 1)
         in s\<lparr>arpClockRef := False,
              currentNote := Some (if nextNote = length (pressedKeys r) then 0 else nextNote)\<rparr>)
      else s)"

subsection \<open>Events and renders\<close>

text \<open>
  The key handlers resolve a key through the tables \<^verbatim>\<open>KEYS\<close> and \<^verbatim>\<open>NOTES\<close>, which
  are data files outside the component; the events below carry the resolved note. The MIDI
  component receives \<^verbatim>\<open>createOscillator\<close> and \<^verbatim>\<open>destroyOscillator\<close> themselves.
\<close>

datatype event =
    PlayNote synth_note
  | StopNote synth_note
  | Escape
  | ControlChange control_params
  | LFOChange lfo_params
  | Osc1Change osc_params
  | Osc2Change osc_params
  | AmpChange amp_params
  | FilterChange filter_params
  | EnvelopeChange envelope_params
  | DelayChange delay_params
  | MidiNotePlayed synth_note
  | MidiNoteStopped synth_note
  | ArpTimeout

fun handler :: "real \<Rightarrow> event \<Rightarrow> synth \<Rightarrow> synth" where
  "handler now (PlayNote n) r = playNote now r n r"
| "handler now (StopNote n) r = stopNote now r n False r"
| "handler now Escape r = handleEscape now r r"
| "handler now (ControlChange c) r = handleControlChange now r c r"
| "handler now (LFOChange l) r = handleLFOChange now r l r"
| "handler now (Osc1Change p) r = handleOsc1Change p r"
| "handler now (Osc2Change p) r = handleOsc2Change p r"
| "handler now (AmpChange a) r = handleAmpChange a r"
| "handler now (FilterChange f) r = handleFilterChange now r f r"
| "handler now (EnvelopeChange e) r = handleEnvelopeChange e r"
| "handler now (DelayChange d) r = handleDelayChange r d r"
| "handler now (MidiNotePlayed n) r = createOscillator now r n r"
| "handler now (MidiNoteStopped n) r = destroyOscillator now n r"
| "handler now ArpTimeout r = arpTimeout r r"

text \<open>
  After a handler React renders again when state was set to a new value, and runs the
  arpeggiator effect when one of its dependencies
  \<^verbatim>\<open>[pressedKeys, currentNote, control.arp]\<close> differs from the previous render. Setting
  a state to the value it already has renders nothing and runs no effect.
\<close>

definition depsChanged :: "synth \<Rightarrow> synth \<Rightarrow> bool" where
  "depsChanged r s \<longleftrightarrow>
     pressedKeysId s \<noteq> pressedKeysId r \<or> currentNote s \<noteq> currentNote r \<or>
     arp (control s) \<noteq> arp (control r)"

definition step :: "real \<Rightarrow> event \<Rightarrow> synth \<Rightarrow> error + synth" where
  "step now ev r =
     (let s = handler now ev r in if depsChanged r s then arpEffect now s else Inr s)"

fun run :: "(real \<times> event) list \<Rightarrow> synth \<Rightarrow> error + synth" where
  "run [] s = Inr s"
| "run ((now, ev) # evs) s =
     (case step now ev s of Inl e \<Rightarrow> Inl e | Inr s' \<Rightarrow> run evs s')"

subsection \<open>Sample inputs\<close>

definition noteA4 :: synth_note where
  "noteA4 = \<lparr>note_name = ''A4'', note_frequency = Some 440\<rparr>"

definition noteA5 :: synth_note where
  "noteA5 = \<lparr>note_name = ''A5'', note_frequency = Some 880\<rparr>"

definition noteSilent :: synth_note where
  "noteSilent = \<lparr>note_name = ''H9'', note_frequency = None\<rparr>"

text \<open>One voice, created on the freshly mounted component at time 0.\<close>

definition one_voice :: synth where
  "one_voice = createOscillator 0 (mounted 0) noteA4 (mounted 0)"

text \<open>
  The edge from the LFO gain to the detune of oscillator \<open>i\<close>, added when the
  destination \<open>d\<close> of the render is \<open>which\<close> (lines 173 to 175 and 184 to 186).
\<close>

definition lfo_edge ::
  "string \<Rightarrow> string \<Rightarrow> nat \<Rightarrow> (node \<times> port) list \<Rightarrow> (node \<times> port) list" where
  "lfo_edge d which i es = (if d = which then add_edge (LFOGain, Detune i) es else es)"

text \<open>Runs of events on the freshly mounted component.\<close>

definition arp_on :: control_params where
  "arp_on = \<lparr>tempo = 90, latch = False, arp = True\<rparr>"

text \<open>The arpeggiator is switched on, then one key is pressed.\<close>

definition arp_one_held :: "error + synth" where
  "arp_one_held = run [(0, ControlChange arp_on), (1, PlayNote noteA4)] (mounted 0)"

text \<open>
  The arpeggiator is switched on, two keys are pressed, the timeout moves the cursor to the
  second key, and that key is released.
\<close>

definition arp_shrunk :: "error + synth" where
  "arp_shrunk =
     run [(0, ControlChange arp_on), (1, PlayNote noteA4), (2, PlayNote noteA5),
          (3, ArpTimeout), (4, StopNote noteA5)] (mounted 0)"

text \<open>A key is pressed and released.\<close>

definition played_and_released :: "error + synth" where
  "played_and_released = run [(0, PlayNote noteA4), (1, StopNote noteA4)] (mounted 0)"

text \<open>Latch is switched on, then two keys are pressed.\<close>

definition latch_on :: control_params where
  "latch_on = \<lparr>tempo = 90, latch = True, arp = False\<rparr>"

definition two_latched :: "error + synth" where
  "two_latched =
     run [(0, ControlChange latch_on), (1, PlayNote noteA4), (2, PlayNote noteA5)] (mounted 0)"

text \<open>A key is pressed.\<close>

definition one_pressed :: "error + synth" where
  "one_pressed = run [(0, PlayNote noteA4)] (mounted 0)"

text \<open>The LFO is routed to oscillator 1 and two keys are pressed.\<close>

definition lfo_to_osc1 :: lfo_params where
  "lfo_to_osc1 = DEFAULTS_lfo\<lparr>lfo_destination := ''osc1''\<rparr>"

definition lfo_on_osc1 :: "error + synth" where
  "lfo_on_osc1 =
     run [(1, LFOChange lfo_to_osc1), (2, PlayNote noteA4), (3, PlayNote noteA5)] (mounted 0)"

text \<open>The LFO is routed to oscillator 1, a key is pressed, the LFO is routed back.\<close>

definition lfo_there_and_back :: "error + synth" where
  "lfo_there_and_back =
     run [(1, LFOChange lfo_to_osc1), (2, PlayNote noteA4), (3, LFOChange DEFAULTS_lfo)]
       (mounted 0)"

text \<open>
  The release is set to 5 seconds; a key is pressed, released, and pressed again while
  its voice is still releasing.
\<close>

definition slow_release :: envelope_params where
  "slow_release = \<lparr>attack = 0, decay = 0.5, sustain = 0.2, release = 5\<rparr>"

definition retriggered :: "error + synth" where
  "retriggered =
     run [(0, EnvelopeChange slow_release), (0, PlayNote noteA4), (1, StopNote noteA4),
          (2, PlayNote noteA4)] (mounted 0)"

subsection \<open>Notions used in the statements\<close>

text \<open>
  The release of a voice at time \<open>now\<close> with release time \<open>rel\<close> has been scheduled
  on a gain when the last two automation calls on it are the cancel at \<open>now\<close> and the
  linear ramp to 0 ending at \<open>now + rel\<close>.
\<close>

definition last_two :: "'a list \<Rightarrow> 'a list" where
  "last_two xs = drop (length xs - 2) xs"

definition release_scheduled :: "real \<Rightarrow> real \<Rightarrow> audio_param \<Rightarrow> bool" where
  "release_scheduled now rel p \<longleftrightarrow>
     last_two (events p) = [CancelAndHoldAtTime now, LinearRampToValueAtTime 0 (now + rel)]"

text \<open>
  The voice map is well formed when every entry points to an allocated VCA and no VCA is
  registered under two names.
\<close>

definition voices_wf :: "synth \<Rightarrow> bool" where
  "voices_wf s \<longleftrightarrow>
     (\<forall>n v. voicesRef s n = Some v \<longrightarrow> vca v < vca_count s) \<and>
     (\<forall>n m v. voicesRef s n = Some v \<and> voicesRef s m = Some v \<longrightarrow> n = m)"

text \<open>
  The LFO gain is routed for the destination \<open>d\<close> when, for \<open>d\<close> the filter, its one
  edge leads to the frequency of the filter and, for any other \<open>d\<close>, all its edges lead
  to the detune of an allocated voice oscillator.
\<close>

definition lfo_routed :: "string \<Rightarrow> synth \<Rightarrow> bool" where
  "lfo_routed d s \<longleftrightarrow>
     (if d = ''filter'' then outgoing LFOGain s = [FilterFrequency]
      else \<forall>p \<in> set (outgoing LFOGain s). \<exists>i < osc_count s. p = Detune i)"

definition graph_inv :: "string \<Rightarrow> synth \<Rightarrow> bool" where
  "graph_inv d s \<longleftrightarrow> voices_wf s \<and> lfo_routed d s"

text \<open>
  Every call of \<^verbatim>\<open>createOscillator\<close> that passes the frequency guard allocates two
  oscillators and one VCA, so the chain of VCA \<open>v\<close> is made of the oscillators \<open>2 * v\<close>
  and \<open>2 * v + 1\<close>. The chain is wired when both oscillators are started and connected
  to the VCA and the VCA is connected to the filter.
\<close>

definition chain_wired :: "nat \<Rightarrow> synth \<Rightarrow> bool" where
  "chain_wired v s \<longleftrightarrow>
     on_started (oscillators s (2 * v)) \<and> on_started (oscillators s (Suc (2 * v))) \<and>
     (Oscillator (2 * v), Input (Gain v)) \<in> set (connections s) \<and>
     (Oscillator (Suc (2 * v)), Input (Gain v)) \<in> set (connections s) \<and>
     (Gain v, Input Filter) \<in> set (connections s)"

definition chains_inv :: "synth \<Rightarrow> bool" where
  "chains_inv s \<longleftrightarrow> osc_count s = 2 * vca_count s \<and> (\<forall>v < vca_count s. chain_wired v s)"

section \<open>What the two voice functions change\<close>

lemma destroyOscillator_eq:
  "destroyOscillator now n s =
     s\<lparr>vcas := (case voicesRef s (note_name n) of None \<Rightarrow> vcas s
         | Some v \<Rightarrow> (vcas s)(vca v := (vcas s (vca v))\<lparr>events := events (vcas s (vca v)) @
             [CancelAndHoldAtTime now,
              LinearRampToValueAtTime 0 (now + release (envelopeRef s))]\<rparr>))\<rparr>"
  by (simp add: destroyOscillator_def schedule_def split: option.splits)

lemma createOscillator_falsy:
  "note_frequency n = None \<or> note_frequency n = Some 0 \<Longrightarrow> createOscillator now r n s = s"
  by (auto simp: createOscillator_def)

lemma createOscillator_eq:
  assumes "note_frequency n = Some f" "f \<noteq> 0"
  shows "createOscillator now r n s =
     s\<lparr>voicesRef := (voicesRef s)(note_name n \<mapsto> \<lparr>vca = vca_count s\<rparr>),
       oscillators := (oscillators s)
         (osc_count s := \<lparr>on_type = osc_type (osc1 r),
            on_detune = \<lparr>pvalue = 0, events = [SetValueAtTime (osc_detune (osc1 r)) now]\<rparr>,
            on_frequency = f * osc_octave (osc1 r), on_started = True\<rparr>,
          Suc (osc_count s) := \<lparr>on_type = osc_type (osc2 r),
            on_detune = \<lparr>pvalue = 0, events = [SetValueAtTime (osc_detune (osc2 r)) now]\<rparr>,
            on_frequency = f * osc_octave (osc2 r), on_started = True\<rparr>),
       osc_count := Suc (Suc (osc_count s)),
       vcas := (vcas (destroyOscillator now n s))
         (vca_count s := \<lparr>pvalue = 0, events =
            [SetValueAtTime 0 now,
             LinearRampToValueAtTime 0.1 (now + attack (envelopeRef s)),
             LinearRampToValueAtTime (sustain (envelope r))
               (now + attack (envelopeRef s) + decay (envelopeRef s))]\<rparr>),
       vca_count := Suc (vca_count s),
       connections :=
         add_edge (Gain (vca_count s), Input Filter)
           (add_edge (Oscillator (Suc (osc_count s)), Input (Gain (vca_count s)))
             (add_edge (Oscillator (osc_count s), Input (Gain (vca_count s)))
               (lfo_edge (lfo_destination (lfo r)) ''osc2'' (Suc (osc_count s))
                 (lfo_edge (lfo_destination (lfo r)) ''osc1'' (osc_count s) (connections s)))))\<rparr>"
  using assms
  by (simp add: createOscillator_def Let_def connect_def newVca_def start_def newOscillator_def
      destroyOscillator_eq schedule_def blank_param_def lfo_edge_def split: option.splits)

lemma one_voice_voicesRef: "voicesRef one_voice = [''A4'' \<mapsto> \<lparr>vca = 0\<rparr>]"
  by (simp add: one_voice_def noteA4_def createOscillator_eq mounted_def)

lemma one_voice_vcas0:
  "vcas one_voice 0 = \<lparr>pvalue = 0, events =
     [SetValueAtTime 0 0, LinearRampToValueAtTime 0.1 0, LinearRampToValueAtTime 0.2 0.5]\<rparr>"
  by (simp add: one_voice_def noteA4_def createOscillator_eq mounted_def DEFAULTS_envelope_def)

lemma one_voice_envelopeRef: "envelopeRef one_voice = DEFAULTS_envelope"
  by (simp add: one_voice_def noteA4_def createOscillator_eq mounted_def)

section \<open>Creating and releasing a voice\<close>

text \<open>
  C10. For a note with a registered voice, \<^verbatim>\<open>destroyOscillator\<close> changes nothing but the
  gain automation of that voice's VCA, to which it appends the cancel and one release
  ramp: the entry stays in the voice map, the oscillators are neither stopped nor
  disconnected, every other VCA, the held notes and the shared nodes (filter, delay,
  feedback, LFO, main gain) are as before. The last conjunct says that the state differs
  from the old one in the VCA store only.
\<close>

theorem destroyOscillator_frame:
  assumes "voicesRef s (note_name n) = Some v"
  shows "events (vcas (destroyOscillator now n s) (vca v)) =
           events (vcas s (vca v)) @
             [CancelAndHoldAtTime now,
              LinearRampToValueAtTime 0 (now + release (envelopeRef s))]
       \<and> pvalue (vcas (destroyOscillator now n s) (vca v)) = pvalue (vcas s (vca v))
       \<and> (\<forall>i. i \<noteq> vca v \<longrightarrow> vcas (destroyOscillator now n s) i = vcas s i)
       \<and> voicesRef (destroyOscillator now n s) = voicesRef s
       \<and> oscillators (destroyOscillator now n s) = oscillators s
       \<and> connections (destroyOscillator now n s) = connections s
       \<and> pressedKeys (destroyOscillator now n s) = pressedKeys s
       \<and> filterRef_frequency (destroyOscillator now n s) = filterRef_frequency s
       \<and> filterRef_Q (destroyOscillator now n s) = filterRef_Q s
       \<and> delayRef (destroyOscillator now n s) = delayRef s
       \<and> feedbackRef (destroyOscillator now n s) = feedbackRef s
       \<and> lfoRef_type (destroyOscillator now n s) = lfoRef_type s
       \<and> lfoRef_frequency (destroyOscillator now n s) = lfoRef_frequency s
       \<and> lfoGainRef (destroyOscillator now n s) = lfoGainRef s
       \<and> mainGainRef (destroyOscillator now n s) = mainGainRef s
       \<and> destroyOscillator now n s = s\<lparr>vcas := vcas (destroyOscillator now n s)\<rparr>"
  using assms by (simp add: destroyOscillator_eq)

theorem destroyOscillator_frame_witness:
  "voicesRef one_voice (note_name noteA4) = Some \<lparr>vca = 0\<rparr>
   \<and> events (vcas (destroyOscillator 1 noteA4 one_voice) 0) =
        [SetValueAtTime 0 0, LinearRampToValueAtTime 0.1 0, LinearRampToValueAtTime 0.2 0.5,
         CancelAndHoldAtTime 1, LinearRampToValueAtTime 0 1]
   \<and> voicesRef (destroyOscillator 1 noteA4 one_voice) = voicesRef one_voice
   \<and> oscillators (destroyOscillator 1 noteA4 one_voice) = oscillators one_voice
   \<and> connections (destroyOscillator 1 noteA4 one_voice) = connections one_voice"
proof -
  have h: "voicesRef one_voice (note_name noteA4) = Some \<lparr>vca = 0\<rparr>"
    by (simp add: one_voice_voicesRef noteA4_def)
  show ?thesis
    using h destroyOscillator_frame [OF h, of 1]
    by (simp add: one_voice_vcas0 one_voice_envelopeRef DEFAULTS_envelope_def)
qed

text \<open>
  C6. For a note with a frequency, \<^verbatim>\<open>createOscillator\<close> registers a new VCA whose gain
  is 0 and carries exactly three automation calls: the value 0 at the current time, a
  linear ramp to the literal 0.1 ending at the current time plus the attack, and a linear
  ramp to the sustain level ending at the current time plus attack plus decay. Attack and
  decay are those of \<^verbatim>\<open>envelopeRef.current\<close>, the sustain level is that of the
  \<^verbatim>\<open>envelope\<close> state of the render; the handler of the envelope sets both to the same
  record, and lemma \<open>envelope_reachable\<close> below shows that they agree along every run.
\<close>

theorem createOscillator_envelope_schedule:
  assumes "note_frequency n = Some f" and "f \<noteq> 0"
  shows "voicesRef (createOscillator now r n s) (note_name n) = Some \<lparr>vca = vca_count s\<rparr>
       \<and> vcas (createOscillator now r n s) (vca_count s) =
           \<lparr>pvalue = 0, events =
              [SetValueAtTime 0 now,
               LinearRampToValueAtTime 0.1 (now + attack (envelopeRef s)),
               LinearRampToValueAtTime (sustain (envelope r))
                 (now + attack (envelopeRef s) + decay (envelopeRef s))]\<rparr>"
  using assms by (simp add: createOscillator_eq)

text \<open>The example of the specification: attack 0.1, decay 0.5, sustain 0.2, note-on at 0.\<close>

theorem createOscillator_envelope_schedule_witness:
  "note_frequency noteA4 = Some 440 \<and> (440::real) \<noteq> 0
   \<and> vcas (createOscillator 0
          (handleEnvelopeChange \<lparr>attack = 0.1, decay = 0.5, sustain = 0.2, release = 0\<rparr> (mounted 0))
          noteA4
          (handleEnvelopeChange \<lparr>attack = 0.1, decay = 0.5, sustain = 0.2, release = 0\<rparr> (mounted 0)))
        0 =
      \<lparr>pvalue = 0, events =
         [SetValueAtTime 0 0, LinearRampToValueAtTime 0.1 0.1, LinearRampToValueAtTime 0.2 0.6]\<rparr>"
proof -
  have h: "note_frequency noteA4 = Some 440"
    by (simp add: noteA4_def)
  have z: "(440::real) \<noteq> 0"
    by simp
  show ?thesis
    using h z createOscillator_envelope_schedule [OF h z, of 0
        "handleEnvelopeChange \<lparr>attack = 0.1, decay = 0.5, sustain = 0.2, release = 0\<rparr> (mounted 0)"
        "handleEnvelopeChange \<lparr>attack = 0.1, decay = 0.5, sustain = 0.2, release = 0\<rparr> (mounted 0)"]
    by (simp add: handleEnvelopeChange_def mounted_def)
qed

text \<open>
  C3. A voice is created under whatever release is in force; the envelope handler then
  replaces the record by \<open>e2\<close>; \<^verbatim>\<open>destroyOscillator\<close> at time \<open>t1\<close> cancels at \<open>t1\<close>
  and ramps to 0 ending at \<open>t1 + release e2\<close>, a ramp of \<open>release e2\<close> seconds. The first
  conjunct is for any state in which the note has a voice, the second follows one voice
  from its creation.
\<close>

theorem release_uses_live_envelope:
  assumes "note_frequency n = Some f" and "f \<noteq> 0"
  shows "(\<forall>v. voicesRef s (note_name n) = Some v \<longrightarrow>
            events (vcas (destroyOscillator t1 n (handleEnvelopeChange e2 s)) (vca v)) =
              events (vcas s (vca v)) @
                [CancelAndHoldAtTime t1, LinearRampToValueAtTime 0 (t1 + release e2)])
       \<and> events (vcas
            (destroyOscillator t1 n (handleEnvelopeChange e2 (createOscillator t0 r n s)))
            (vca_count s)) =
           [SetValueAtTime 0 t0,
            LinearRampToValueAtTime 0.1 (t0 + attack (envelopeRef s)),
            LinearRampToValueAtTime (sustain (envelope r))
              (t0 + attack (envelopeRef s) + decay (envelopeRef s)),
            CancelAndHoldAtTime t1,
            LinearRampToValueAtTime 0 (t1 + release e2)]"
  using assms by (simp add: createOscillator_eq destroyOscillator_eq handleEnvelopeChange_def)

text \<open>
  The example of the specification: created under release 0.5, changed to 2.0 while the
  voice sounds, released at time 3: the ramp ends at 5.
\<close>

theorem release_uses_live_envelope_witness:
  "note_frequency noteA4 = Some 440 \<and> (440::real) \<noteq> 0
   \<and> events (vcas
        (destroyOscillator 3 noteA4
          (handleEnvelopeChange \<lparr>attack = 0, decay = 0.5, sustain = 0.2, release = 2\<rparr>
            (createOscillator 1
              (handleEnvelopeChange \<lparr>attack = 0, decay = 0.5, sustain = 0.2, release = 0.5\<rparr>
                 (mounted 0))
              noteA4
              (handleEnvelopeChange \<lparr>attack = 0, decay = 0.5, sustain = 0.2, release = 0.5\<rparr>
                 (mounted 0)))))
        0) =
      [SetValueAtTime 0 1, LinearRampToValueAtTime 0.1 1, LinearRampToValueAtTime 0.2 1.5,
       CancelAndHoldAtTime 3, LinearRampToValueAtTime 0 5]"
proof -
  have h: "note_frequency noteA4 = Some 440"
    by (simp add: noteA4_def)
  have z: "(440::real) \<noteq> 0"
    by simp
  show ?thesis
    using h z release_uses_live_envelope [OF h z, of
        "handleEnvelopeChange \<lparr>attack = 0, decay = 0.5, sustain = 0.2, release = 0.5\<rparr> (mounted 0)"
        3 "\<lparr>attack = 0, decay = 0.5, sustain = 0.2, release = 2\<rparr>" 1
        "handleEnvelopeChange \<lparr>attack = 0, decay = 0.5, sustain = 0.2, release = 0.5\<rparr> (mounted 0)"]
    by (simp add: handleEnvelopeChange_def mounted_def)
qed

section \<open>The arpeggiator on concrete runs\<close>

lemmas run_eval =
  step_def depsChanged_def playNote_def stopNote_def setPressedKeys_def
  handleControlChange_def handleEscape_def arpEffect_def arpNote_def at_index_def
  arpTimeout_def playArpNote_def Let_def schedule_def
  mounted_def arp_on_def DEFAULTS_control_def DEFAULTS_envelope_def
  noteA4_def noteA5_def noteSilent_def
  createOscillator_eq createOscillator_falsy destroyOscillator_eq

text \<open>
  C9. The claim says that no operation throws, and that \<^verbatim>\<open>playArpNote\<close> in particular
  does not fault when the note has no registered voice after \<^verbatim>\<open>createOscillator\<close>
  returns. The code does fault there: with the arpeggiator on, pressing a key whose note has
  no frequency puts the note into \<^verbatim>\<open>pressedKeys\<close>; the effect calls
  \<^verbatim>\<open>playArpNote\<close>, \<^verbatim>\<open>createOscillator\<close> returns at its frequency guard without
  registering a voice, and the destructuring of the missing entry throws.
  \<^verbatim>\<open>destroyOscillator\<close> guards the same lookup.
\<close>

theorem playArpNote_throws_without_voice:
  "run [(0, ControlChange arp_on), (1, PlayNote noteSilent)] (mounted 0) = Inl TypeError"
  by (simp add: run_eval)

lemma playArpNote_TypeError:
  assumes "note_frequency n = None \<or> note_frequency n = Some 0"
    and "voicesRef s (note_name n) = None"
  shows "playArpNote now r n s = Inl TypeError"
  using assms by (simp add: playArpNote_def createOscillator_falsy)

text \<open>
  C4. The claim fails for a held-note set of size 1. The first run of the effect triggers
  the note and sets the timeout. Its callback computes \<^verbatim>\<open>nextNote = 1\<close>, which equals
  \<^verbatim>\<open>pressedKeys.length\<close>, and calls \<^verbatim>\<open>setCurrentNote(0)\<close> while
  \<^verbatim>\<open>currentNote\<close> is 0 already: no dependency of the effect changes, the effect does not
  run again, no note is triggered and no timeout is set. There is no second tick.
\<close>

theorem arp_single_note_stalls:
  "arp_one_held = Inr (projr arp_one_held)
   \<and> arp (control (projr arp_one_held))
   \<and> pressedKeys (projr arp_one_held) = [noteA4]
   \<and> currentNote (projr arp_one_held) = Some 0
   \<and> vca_count (projr arp_one_held) = 1
   \<and> arpClockRef (projr arp_one_held)
   \<and> step 2 ArpTimeout (projr arp_one_held) = Inr ((projr arp_one_held)\<lparr>arpClockRef := False\<rparr>)
   \<and> step 3 ArpTimeout ((projr arp_one_held)\<lparr>arpClockRef := False\<rparr>) =
        Inr ((projr arp_one_held)\<lparr>arpClockRef := False\<rparr>)"
proof -
  have "arp_one_held = Inr (projr arp_one_held)"
    by (simp add: arp_one_held_def run_eval)
  moreover have "arp (control (projr arp_one_held))"
    by (simp add: arp_one_held_def run_eval)
  moreover have "pressedKeys (projr arp_one_held) = [noteA4]"
    by (simp add: arp_one_held_def run_eval)
  moreover have "currentNote (projr arp_one_held) = Some 0"
    by (simp add: arp_one_held_def run_eval)
  moreover have "vca_count (projr arp_one_held) = 1"
    by (simp add: arp_one_held_def run_eval)
  moreover have "arpClockRef (projr arp_one_held)"
    by (simp add: arp_one_held_def run_eval)
  ultimately show ?thesis
    by (simp add: step_def depsChanged_def arpTimeout_def)
qed

text \<open>The same for any single held note: the callback only consumes the timeout.\<close>

lemma arpTimeout_single_note:
  assumes "arp (control r)" and "length (pressedKeys r) = 1" and "currentNote r = Some 0"
  shows "step now ArpTimeout r = Inr (r\<lparr>arpClockRef := False\<rparr>)"
  using assms by (simp add: step_def depsChanged_def arpTimeout_def)

text \<open>
  With two or more held notes the callback moves the cursor to the next held note,
  wrapping to 0 after the last, and the effect runs on that note; a note with a frequency
  is then triggered on a new VCA.
\<close>

lemma arpTimeout_round_robin:
  assumes "arp (control r)" and "arpClockRef r" and "currentNote r = Some i"
    and "i < length (pressedKeys r)" and "2 \<le> length (pressedKeys r)"
  shows "step now ArpTimeout r =
           arpEffect now (r\<lparr>arpClockRef := False,
             currentNote := Some (if Suc i = length (pressedKeys r) then 0 else Suc i)\<rparr>)
       \<and> arpNote (r\<lparr>arpClockRef := False,
             currentNote := Some (if Suc i = length (pressedKeys r) then 0 else Suc i)\<rparr>) =
           Some (pressedKeys r ! (if Suc i = length (pressedKeys r) then 0 else Suc i))"
  using assms by (auto simp: step_def depsChanged_def arpTimeout_def Let_def arpNote_def at_index_def)

lemma playArpNote_triggers:
  assumes "note_frequency n = Some f" and "f \<noteq> 0"
  shows "\<exists>s'. playArpNote now r n s = Inr s' \<and> vca_count s' = Suc (vca_count s)
     \<and> voicesRef s' (note_name n) = Some \<lparr>vca = vca_count s\<rparr>"
  by (simp add: playArpNote_def Let_def createOscillator_eq [OF assms])

text \<open>
  C5. The claim says that a cursor left beyond the end of a shrunken held-note set selects
  index 0. In the code only a null or zero cursor selects index 0; beyond the end
  \<^verbatim>\<open>pressedKeys[currentNote]\<close> is undefined and the guard \<^verbatim>\<open>if (note)\<close> skips the
  note. Here the cursor is 1 and one note is held: the run of the effect that follows the
  release triggers nothing (three VCAs were allocated before, three after), and neither
  does the next tick.
\<close>

theorem arp_cursor_past_end_selects_nothing:
  "arp_shrunk = Inr (projr arp_shrunk)
   \<and> arp (control (projr arp_shrunk))
   \<and> pressedKeys (projr arp_shrunk) = [noteA4]
   \<and> currentNote (projr arp_shrunk) = Some 1
   \<and> vca_count (projr arp_shrunk) = 3
   \<and> arpNote (projr arp_shrunk) = None
   \<and> arpNote (projr arp_shrunk) \<noteq> Some (pressedKeys (projr arp_shrunk) ! 0)
   \<and> step 5 ArpTimeout (projr arp_shrunk) = Inr ((projr arp_shrunk)\<lparr>currentNote := Some 2\<rparr>)"
proof -
  have ok: "arp_shrunk = Inr (projr arp_shrunk)"
    by (simp add: arp_shrunk_def run_eval)
  have a: "arp (control (projr arp_shrunk))"
    by (simp add: arp_shrunk_def run_eval)
  have k: "pressedKeys (projr arp_shrunk) = [noteA4]"
    by (simp add: arp_shrunk_def run_eval)
  have c: "currentNote (projr arp_shrunk) = Some 1"
    by (simp add: arp_shrunk_def run_eval)
  have v: "vca_count (projr arp_shrunk) = 3"
    by (simp add: arp_shrunk_def run_eval)
  have t: "arpClockRef (projr arp_shrunk)"
    by (simp add: arp_shrunk_def run_eval)
  have n: "arpNote (projr arp_shrunk) = None"
    by (simp add: arpNote_def at_index_def k c)
  have "step 5 ArpTimeout (projr arp_shrunk) = Inr ((projr arp_shrunk)\<lparr>currentNote := Some 2\<rparr>)"
    by (simp add: step_def depsChanged_def arpTimeout_def arpEffect_def arpNote_def
        at_index_def a k c t)
  with ok a k c v n show ?thesis
    by simp
qed

text \<open>
  C5 as the code has it. With the arpeggiator on and a note held, a run of the effect
  selects the first held note when the cursor is null or 0, the held note at the cursor
  when the cursor is within the set, and no note when the cursor is beyond the end. With no
  note selected the run triggers nothing and only sets the timeout; with a note selected
  it is the call of \<^verbatim>\<open>playArpNote\<close> on that note followed by setting the timeout.
\<close>

theorem arp_tick_selection:
  assumes "arp (control r)" and "pressedKeys r \<noteq> []"
  shows "arpNote r =
           (case currentNote r of
              None \<Rightarrow> Some (pressedKeys r ! 0)
            | Some i \<Rightarrow> if i < length (pressedKeys r) then Some (pressedKeys r ! i) else None)
       \<and> (arpNote r = None \<longrightarrow> arpEffect now r = Inr (r\<lparr>arpClockRef := True\<rparr>))
       \<and> (\<forall>k. arpNote r = Some k \<longrightarrow>
             arpEffect now r =
               (case playArpNote now r k (r\<lparr>arpClockRef := False\<rparr>) of
                  Inl e \<Rightarrow> Inl e
                | Inr s' \<Rightarrow> Inr (s'\<lparr>arpClockRef := True\<rparr>)))"
  using assms
  by (auto simp: arpNote_def at_index_def arpEffect_def split: option.splits)

theorem arp_tick_selection_witness:
  "arp (control ((mounted 0)\<lparr>control := arp_on, pressedKeys := [noteA4, noteA5],
        currentNote := Some 1\<rparr>))
   \<and> pressedKeys ((mounted 0)\<lparr>control := arp_on, pressedKeys := [noteA4, noteA5],
        currentNote := Some 1\<rparr>) \<noteq> []
   \<and> arpNote ((mounted 0)\<lparr>control := arp_on, pressedKeys := [noteA4, noteA5],
        currentNote := Some 1\<rparr>) = Some noteA5
   \<and> arpNote ((mounted 0)\<lparr>control := arp_on, pressedKeys := [noteA4, noteA5],
        currentNote := Some 2\<rparr>) = None"
proof -
  have a: "arp (control ((mounted 0)\<lparr>control := arp_on, pressedKeys := [noteA4, noteA5],
        currentNote := Some 1\<rparr>))"
    by (simp add: arp_on_def)
  have k: "pressedKeys ((mounted 0)\<lparr>control := arp_on, pressedKeys := [noteA4, noteA5],
        currentNote := Some 1\<rparr>) \<noteq> []"
    by simp
  have a2: "arp (control ((mounted 0)\<lparr>control := arp_on, pressedKeys := [noteA4, noteA5],
        currentNote := Some 2\<rparr>))"
    by (simp add: arp_on_def)
  have k2: "pressedKeys ((mounted 0)\<lparr>control := arp_on, pressedKeys := [noteA4, noteA5],
        currentNote := Some 2\<rparr>) \<noteq> []"
    by simp
  show ?thesis
    using a k arp_tick_selection [OF a k, of 0] arp_tick_selection [OF a2 k2, of 0]
    by simp
qed

section \<open>A note-off with nothing sounding\<close>

text \<open>
  C8. The claim says that a second note-off of a released note schedules nothing. The
  voice stays in the map after its release, so the second note-off finds it and again
  cancels and schedules a release ramp on its VCA, through \<^verbatim>\<open>stopNote\<close> as well as
  through \<^verbatim>\<open>destroyOscillator\<close> itself.
\<close>

theorem second_note_off_schedules_again:
  "played_and_released = Inr (projr played_and_released)
   \<and> pressedKeys (projr played_and_released) = []
   \<and> events (vcas (projr played_and_released) 0) =
        [SetValueAtTime 0 0, LinearRampToValueAtTime 0.1 0, LinearRampToValueAtTime 0.2 0.5,
         CancelAndHoldAtTime 1, LinearRampToValueAtTime 0 1]
   \<and> events (vcas (destroyOscillator 2 noteA4 (projr played_and_released)) 0) =
        [SetValueAtTime 0 0, LinearRampToValueAtTime 0.1 0, LinearRampToValueAtTime 0.2 0.5,
         CancelAndHoldAtTime 1, LinearRampToValueAtTime 0 1,
         CancelAndHoldAtTime 2, LinearRampToValueAtTime 0 2]
   \<and> events (vcas (stopNote 2 (projr played_and_released) noteA4 False
          (projr played_and_released)) 0) =
        [SetValueAtTime 0 0, LinearRampToValueAtTime 0.1 0, LinearRampToValueAtTime 0.2 0.5,
         CancelAndHoldAtTime 1, LinearRampToValueAtTime 0 1,
         CancelAndHoldAtTime 2, LinearRampToValueAtTime 0 2]"
  by (simp add: played_and_released_def run_eval)

text \<open>
  C8 as the code has it. For a note with no entry in the voice map
  \<^verbatim>\<open>destroyOscillator\<close> returns the state as it is, and so does the whole event when the
  note-off arrives through \<^verbatim>\<open>destroyOscillator\<close> directly or through \<^verbatim>\<open>stopNote\<close> with
  latch on. With latch off \<^verbatim>\<open>stopNote\<close> sets the held notes to the held notes without
  the note (the same notes when the note is not held), always as a new array, so the
  arpeggiator effect runs again. With the arpeggiator off that run only leaves no timeout
  pending: no automation is scheduled and the voice map, the nodes and the edges stay as
  they are. With the arpeggiator on it is a new tick on the remaining held notes.
\<close>

theorem note_off_without_voice:
  assumes "voicesRef s (note_name n) = None"
  shows "destroyOscillator now n s = s
       \<and> step now (MidiNoteStopped n) s = Inr s
       \<and> (latch (control s) \<longrightarrow> step now (StopNote n) s = Inr s)
       \<and> (\<not> latch (control s) \<and> \<not> arp (control s) \<longrightarrow>
             step now (StopNote n) s =
               Inr ((setPressedKeys (filter (\<lambda>k. note_name k \<noteq> note_name n) (pressedKeys s)) s)
                      \<lparr>arpClockRef := False\<rparr>))
       \<and> (\<not> latch (control s) \<and> arp (control s) \<longrightarrow>
             step now (StopNote n) s =
               arpEffect now
                 (setPressedKeys (filter (\<lambda>k. note_name k \<noteq> note_name n) (pressedKeys s)) s))
       \<and> ((\<forall>k \<in> set (pressedKeys s). note_name k \<noteq> note_name n) \<longrightarrow>
             filter (\<lambda>k. note_name k \<noteq> note_name n) (pressedKeys s) = pressedKeys s)"
proof -
  have d: "destroyOscillator now n s = s"
    using assms by (simp add: destroyOscillator_def)
  have m: "step now (MidiNoteStopped n) s = Inr s"
    by (simp add: step_def d depsChanged_def)
  have l: "step now (StopNote n) s = Inr s" if "latch (control s)"
    using that by (simp add: step_def stopNote_def depsChanged_def)
  have h: "handler now (StopNote n) s =
      setPressedKeys (filter (\<lambda>k. note_name k \<noteq> note_name n) (pressedKeys s)) s"
    if "\<not> latch (control s)"
    using that by (simp add: stopNote_def d)
  have c: "depsChanged s
      (setPressedKeys (filter (\<lambda>k. note_name k \<noteq> note_name n) (pressedKeys s)) s)"
    by (simp add: depsChanged_def setPressedKeys_def)
  have e: "step now (StopNote n) s =
      arpEffect now (setPressedKeys (filter (\<lambda>k. note_name k \<noteq> note_name n) (pressedKeys s)) s)"
    if "\<not> latch (control s)"
    using h [OF that] c by (simp add: step_def)
  have off: "arpEffect now (setPressedKeys ks s) = Inr ((setPressedKeys ks s)\<lparr>arpClockRef := False\<rparr>)"
    if "\<not> arp (control s)" for ks
    using that by (simp add: arpEffect_def setPressedKeys_def)
  from d m l e off show ?thesis
    by simp
qed

text \<open>
  A key-up of A5, which has no voice and is not held: with A4 held and the arpeggiator
  off nothing is scheduled; with A4 held and the arpeggiator on the effect runs again and
  triggers A4 on a second VCA.
\<close>

theorem note_off_without_voice_witness:
  "voicesRef (projr one_pressed) (note_name noteA5) = None
   \<and> \<not> latch (control (projr one_pressed)) \<and> \<not> arp (control (projr one_pressed))
   \<and> step 1 (MidiNoteStopped noteA5) (projr one_pressed) = Inr (projr one_pressed)
   \<and> step 1 (StopNote noteA5) (projr one_pressed) =
        Inr ((setPressedKeys [noteA4] (projr one_pressed))\<lparr>arpClockRef := False\<rparr>)
   \<and> voicesRef (projr arp_one_held) (note_name noteA5) = None
   \<and> \<not> latch (control (projr arp_one_held)) \<and> arp (control (projr arp_one_held))
   \<and> step 2 (StopNote noteA5) (projr arp_one_held) =
        arpEffect 2 (setPressedKeys [noteA4] (projr arp_one_held))
   \<and> vca_count (projr arp_one_held) = 1
   \<and> vca_count (projr (step 2 (StopNote noteA5) (projr arp_one_held))) = 2"
proof -
  have h1: "voicesRef (projr one_pressed) (note_name noteA5) = None"
    by (simp add: one_pressed_def run_eval)
  have c1: "\<not> latch (control (projr one_pressed)) \<and> \<not> arp (control (projr one_pressed))"
    by (simp add: one_pressed_def run_eval)
  have k1: "pressedKeys (projr one_pressed) = [noteA4]"
    by (simp add: one_pressed_def run_eval)
  have h2: "voicesRef (projr arp_one_held) (note_name noteA5) = None"
    by (simp add: arp_one_held_def run_eval)
  have c2: "\<not> latch (control (projr arp_one_held)) \<and> arp (control (projr arp_one_held))"
    by (simp add: arp_one_held_def run_eval)
  have k2: "pressedKeys (projr arp_one_held) = [noteA4]"
    by (simp add: arp_one_held_def run_eval)
  have v2: "vca_count (projr arp_one_held) = 1"
    by (simp add: arp_one_held_def run_eval)
  have f: "note_name noteA4 \<noteq> note_name noteA5"
    by (simp add: noteA4_def noteA5_def)
  have s2: "step 2 (StopNote noteA5) (projr arp_one_held) =
        arpEffect 2 (setPressedKeys [noteA4] (projr arp_one_held))"
    using note_off_without_voice [OF h2, of 2] c2 by (simp add: k2 f)
  have n2: "vca_count (projr (arpEffect 2 (setPressedKeys [noteA4] (projr arp_one_held)))) = 2"
    by (simp add: arp_one_held_def run_eval)
  show ?thesis
    using h1 c1 h2 c2 v2 s2 n2 note_off_without_voice [OF h1, of 1]
    by (simp add: k1 f)
qed

section \<open>Releasing every held note\<close>

lemma last_two_append [simp]: "last_two (xs @ [a, b]) = [a, b]"
  by (simp add: last_two_def)

lemma destroyOscillator_fields [simp]:
  "voicesRef (destroyOscillator now k h) = voicesRef h"
  "envelopeRef (destroyOscillator now k h) = envelopeRef h"
  "pressedKeys (destroyOscillator now k h) = pressedKeys h"
  "pressedKeysId (destroyOscillator now k h) = pressedKeysId h"
  "currentNote (destroyOscillator now k h) = currentNote h"
  "control (destroyOscillator now k h) = control h"
  "vca_count (destroyOscillator now k h) = vca_count h"
  "connections (destroyOscillator now k h) = connections h"
  "lfo (destroyOscillator now k h) = lfo h"
  "envelope (destroyOscillator now k h) = envelope h"
  by (simp_all add: destroyOscillator_eq)

lemma destroyOscillator_released:
  "voicesRef h (note_name k) = Some v \<Longrightarrow>
   release_scheduled now (release (envelopeRef h)) (vcas (destroyOscillator now k h) (vca v))"
  by (simp add: destroyOscillator_eq release_scheduled_def)

lemma destroyOscillator_keeps_released:
  "release_scheduled now (release (envelopeRef h)) (vcas h i) \<Longrightarrow>
   release_scheduled now (release (envelopeRef h)) (vcas (destroyOscillator now k h) i)"
  by (simp add: destroyOscillator_eq release_scheduled_def split: option.splits)

lemma stopNote_force_fields [simp]:
  "voicesRef (stopNote now r k True h) = voicesRef h"
  "envelopeRef (stopNote now r k True h) = envelopeRef h"
  "pressedKeysId (stopNote now r k True h) = Suc (pressedKeysId h)"
  "vcas (stopNote now r k True h) = vcas (destroyOscillator now k h)"
  "currentNote (stopNote now r k True h) = currentNote h"
  "control (stopNote now r k True h) = control h"
  by (simp_all add: stopNote_def setPressedKeys_def)

lemma stop_all_fields:
  "voicesRef (foldl (\<lambda>h k. stopNote now r k True h) s ks) = voicesRef s
   \<and> envelopeRef (foldl (\<lambda>h k. stopNote now r k True h) s ks) = envelopeRef s
   \<and> pressedKeysId (foldl (\<lambda>h k. stopNote now r k True h) s ks) = pressedKeysId s + length ks"
  by (induction ks arbitrary: s) simp_all

lemma stop_all_keeps_released:
  "release_scheduled now (release (envelopeRef s)) (vcas s i) \<Longrightarrow>
   release_scheduled now (release (envelopeRef s))
     (vcas (foldl (\<lambda>h k. stopNote now r k True h) s ks) i)"
proof (induction ks arbitrary: s)
  case Nil
  then show ?case by simp
next
  case (Cons k ks)
  have "release_scheduled now (release (envelopeRef (stopNote now r k True s)))
          (vcas (stopNote now r k True s) i)"
    using Cons.prems by (simp add: destroyOscillator_keeps_released)
  from Cons.IH [OF this] show ?case by simp
qed

lemma stop_all_released:
  "k \<in> set ks \<Longrightarrow> voicesRef s (note_name k) = Some v \<Longrightarrow>
   release_scheduled now (release (envelopeRef s))
     (vcas (foldl (\<lambda>h k. stopNote now r k True h) s ks) (vca v))"
proof (induction ks arbitrary: s)
  case Nil
  then show ?case by simp
next
  case (Cons a ks)
  show ?case
  proof (cases "k \<in> set ks")
    case True
    have "voicesRef (stopNote now r a True s) (note_name k) = Some v"
      using Cons.prems by simp
    from Cons.IH [OF True this] show ?thesis by simp
  next
    case False
    with Cons.prems have "a = k" by simp
    then have "release_scheduled now (release (envelopeRef (stopNote now r a True s)))
          (vcas (stopNote now r a True s) (vca v))"
      using Cons.prems by (simp add: destroyOscillator_released)
    from stop_all_keeps_released [OF this] show ?thesis by simp
  qed
qed

lemma destroy_all_fields:
  "voicesRef (foldl (\<lambda>h k. destroyOscillator now k h) s ks) = voicesRef s
   \<and> envelopeRef (foldl (\<lambda>h k. destroyOscillator now k h) s ks) = envelopeRef s
   \<and> pressedKeys (foldl (\<lambda>h k. destroyOscillator now k h) s ks) = pressedKeys s
   \<and> pressedKeysId (foldl (\<lambda>h k. destroyOscillator now k h) s ks) = pressedKeysId s
   \<and> control (foldl (\<lambda>h k. destroyOscillator now k h) s ks) = control s
   \<and> currentNote (foldl (\<lambda>h k. destroyOscillator now k h) s ks) = currentNote s"
  by (induction ks arbitrary: s) simp_all

lemma destroy_all_keeps_released:
  "release_scheduled now (release (envelopeRef s)) (vcas s i) \<Longrightarrow>
   release_scheduled now (release (envelopeRef s))
     (vcas (foldl (\<lambda>h k. destroyOscillator now k h) s ks) i)"
proof (induction ks arbitrary: s)
  case Nil
  then show ?case by simp
next
  case (Cons k ks)
  have "release_scheduled now (release (envelopeRef (destroyOscillator now k s)))
          (vcas (destroyOscillator now k s) i)"
    using Cons.prems by (simp add: destroyOscillator_keeps_released)
  from Cons.IH [OF this] show ?case by simp
qed

lemma latch_off_handler:
  assumes "latch (control r)" and "\<not> latch newControl"
  shows "pressedKeys (handleControlChange now r newControl r) = []"
    and "pressedKeysId (handleControlChange now r newControl r) \<noteq> pressedKeysId r"
    and "voicesRef (handleControlChange now r newControl r) = voicesRef r"
    and "k \<in> set (pressedKeys r) \<Longrightarrow> voicesRef r (note_name k) = Some v \<Longrightarrow>
      release_scheduled now (release (envelopeRef r))
        (vcas (handleControlChange now r newControl r) (vca v))"
proof -
  let ?F = "foldl (\<lambda>h k. stopNote now r k True h) r (pressedKeys r)"
  let ?s1 = "setPressedKeys [] ?F"
  show "pressedKeys (handleControlChange now r newControl r) = []"
    using assms by (simp add: handleControlChange_def Let_def destroy_all_fields setPressedKeys_def)
  show "pressedKeysId (handleControlChange now r newControl r) \<noteq> pressedKeysId r"
    using assms by (simp add: handleControlChange_def Let_def destroy_all_fields setPressedKeys_def stop_all_fields)
  show "voicesRef (handleControlChange now r newControl r) = voicesRef r"
    using assms by (simp add: handleControlChange_def Let_def destroy_all_fields setPressedKeys_def stop_all_fields)
  assume k: "k \<in> set (pressedKeys r)" "voicesRef r (note_name k) = Some v"
  have 1: "release_scheduled now (release (envelopeRef r)) (vcas ?s1 (vca v))"
    using stop_all_released [OF k, of now r] by (simp add: setPressedKeys_def)
  have e: "envelopeRef (?s1\<lparr>currentNote := Some 0\<rparr>) = envelopeRef r"
    by (simp add: setPressedKeys_def stop_all_fields)
  have 2: "release_scheduled now (release (envelopeRef r))
      (vcas (foldl (\<lambda>h k. destroyOscillator now k h) (?s1\<lparr>currentNote := Some 0\<rparr>) (pressedKeys r)) (vca v))"
    using destroy_all_keeps_released [of now "?s1\<lparr>currentNote := Some 0\<rparr>" "vca v" "pressedKeys r"] 1
    by (simp add: e)
  show "release_scheduled now (release (envelopeRef r))
        (vcas (handleControlChange now r newControl r) (vca v))"
    using assms 1 2 by (simp add: handleControlChange_def Let_def)
qed

text \<open>
  C7. A control change that turns latch off, whatever else it changes, ends with an
  empty held-note set: the handler calls \<^verbatim>\<open>stopNote(note, true)\<close> on every held note,
  which bypasses latch and calls \<^verbatim>\<open>destroyOscillator\<close>, then sets the held notes to the
  empty array. Every held note that has a voice has its release scheduled at the time of
  the change. The render that follows runs the arpeggiator effect on the empty set, which
  leaves no timeout pending and cannot fail.
\<close>

theorem latch_off_releases_all:
  assumes "latch (control r)" and "\<not> latch newControl"
  shows "step now (ControlChange newControl) r =
           Inr ((handleControlChange now r newControl r)\<lparr>arpClockRef := False\<rparr>)
       \<and> pressedKeys (handleControlChange now r newControl r) = []
       \<and> voicesRef (handleControlChange now r newControl r) = voicesRef r
       \<and> (\<forall>k \<in> set (pressedKeys r). \<forall>v. voicesRef r (note_name k) = Some v \<longrightarrow>
             release_scheduled now (release (envelopeRef r))
               (vcas (handleControlChange now r newControl r) (vca v)))"
proof -
  have "step now (ControlChange newControl) r =
          Inr ((handleControlChange now r newControl r)\<lparr>arpClockRef := False\<rparr>)"
    using latch_off_handler(1,2) [OF assms, of now]
    by (simp add: step_def depsChanged_def arpEffect_def)
  then show ?thesis
    using latch_off_handler(1,3,4) [OF assms] by blast
qed

text \<open>With latch on and two notes held, switching latch off at time 3.\<close>

theorem latch_off_releases_all_witness:
  "latch (control (projr two_latched)) \<and> \<not> latch DEFAULTS_control
   \<and> pressedKeys (projr two_latched) = [noteA4, noteA5]
   \<and> pressedKeys
         (handleControlChange 3 (projr two_latched) DEFAULTS_control (projr two_latched)) = []
   \<and> last_two (events (vcas
         (handleControlChange 3 (projr two_latched) DEFAULTS_control (projr two_latched)) 0)) =
        [CancelAndHoldAtTime 3, LinearRampToValueAtTime 0 3]
   \<and> last_two (events (vcas
         (handleControlChange 3 (projr two_latched) DEFAULTS_control (projr two_latched)) 1)) =
        [CancelAndHoldAtTime 3, LinearRampToValueAtTime 0 3]"
proof -
  have a: "latch (control (projr two_latched))"
    by (simp add: two_latched_def latch_on_def run_eval)
  have b: "\<not> latch DEFAULTS_control"
    by (simp add: DEFAULTS_control_def)
  have k: "pressedKeys (projr two_latched) = [noteA4, noteA5]"
    by (simp add: two_latched_def latch_on_def run_eval)
  have v4: "voicesRef (projr two_latched) ''A4'' = Some \<lparr>vca = 0\<rparr>"
    by (simp add: two_latched_def latch_on_def run_eval)
  have v5: "voicesRef (projr two_latched) ''A5'' = Some \<lparr>vca = 1\<rparr>"
    by (simp add: two_latched_def latch_on_def run_eval)
  have e: "release (envelopeRef (projr two_latched)) = 0"
    by (simp add: two_latched_def latch_on_def run_eval)
  show ?thesis
    using a b k latch_off_releases_all [OF a b, of 3]
    by (simp add: release_scheduled_def noteA4_def noteA5_def v4 v5 e)
qed

section \<open>The voice map and the LFO routing along every run\<close>

lemma graph_inv_cong:
  assumes "voicesRef s' = voicesRef s" "vca_count s' = vca_count s"
    "osc_count s' = osc_count s" "connections s' = connections s"
  shows "graph_inv d s' = graph_inv d s"
  using assms by (simp add: graph_inv_def voices_wf_def lfo_routed_def outgoing_def)

lemma targets_add_edge_other:
  "a \<noteq> x \<Longrightarrow> targets x (add_edge (a, b) es) = targets x es"
  by (simp add: add_edge_def targets_def)

lemma set_targets_add_edge:
  "set (targets x (add_edge (x, b) es)) = insert b (set (targets x es))"
  by (auto simp: add_edge_def targets_def image_iff)

lemma set_targets_lfo_edge:
  "set (targets LFOGain (lfo_edge d w i es)) =
     (if d = w then insert (Detune i) (set (targets LFOGain es)) else set (targets LFOGain es))"
  by (simp add: lfo_edge_def set_targets_add_edge)

lemma lfo_edge_filter: "w \<noteq> ''filter'' \<Longrightarrow> lfo_edge ''filter'' w i es = es"
  by (simp add: lfo_edge_def)

lemma destroyOscillator_osc_count [simp]:
  "osc_count (destroyOscillator now k h) = osc_count h"
  by (simp add: destroyOscillator_eq)

lemma voices_wf_createOscillator:
  assumes "voices_wf s"
  shows "voices_wf (createOscillator now r n s)"
proof (cases "note_frequency n = None \<or> note_frequency n = Some 0")
  case True
  with assms show ?thesis by (simp add: createOscillator_falsy)
next
  case False
  then obtain f where f: "note_frequency n = Some f" "f \<noteq> 0" by auto
  have fresh: "voicesRef s m \<noteq> Some \<lparr>vca = vca_count s\<rparr>" for m
  proof
    assume "voicesRef s m = Some \<lparr>vca = vca_count s\<rparr>"
    with assms have "vca \<lparr>vca = vca_count s\<rparr> < vca_count s"
      unfolding voices_wf_def by blast
    then show False by simp
  qed
  have v: "voicesRef (createOscillator now r n s) =
      (voicesRef s)(note_name n \<mapsto> \<lparr>vca = vca_count s\<rparr>)"
    and c: "vca_count (createOscillator now r n s) = Suc (vca_count s)"
    by (simp_all add: createOscillator_eq [OF f])
  show ?thesis
    unfolding voices_wf_def v c
  proof (intro conjI allI impI)
    fix m w
    assume "((voicesRef s)(note_name n \<mapsto> \<lparr>vca = vca_count s\<rparr>)) m = Some w"
    then show "vca w < Suc (vca_count s)"
      using assms unfolding voices_wf_def by (auto simp: less_Suc_eq split: if_splits)
  next
    fix m k w
    assume "((voicesRef s)(note_name n \<mapsto> \<lparr>vca = vca_count s\<rparr>)) m = Some w \<and>
            ((voicesRef s)(note_name n \<mapsto> \<lparr>vca = vca_count s\<rparr>)) k = Some w"
    then show "m = k"
      using assms fresh unfolding voices_wf_def by (auto split: if_splits)
  qed
qed

lemma lfo_routed_createOscillator:
  assumes "lfo_routed d s" and "lfo_destination (lfo r) = d"
  shows "lfo_routed d (createOscillator now r n s)"
proof (cases "note_frequency n = None \<or> note_frequency n = Some 0")
  case True
  with assms show ?thesis by (simp add: createOscillator_falsy)
next
  case False
  then obtain f where f: "note_frequency n = Some f" "f \<noteq> 0" by auto
  have c: "outgoing LFOGain (createOscillator now r n s) =
      targets LFOGain (lfo_edge d ''osc2'' (Suc (osc_count s))
        (lfo_edge d ''osc1'' (osc_count s) (connections s)))"
    and o: "osc_count (createOscillator now r n s) = Suc (Suc (osc_count s))"
    using assms(2)
    by (simp_all add: createOscillator_eq [OF f] outgoing_def targets_add_edge_other)
  show ?thesis
  proof (cases "d = ''filter''")
    case True
    with assms(1) show ?thesis
      unfolding lfo_routed_def c o by (simp add: lfo_edge_filter outgoing_def)
  next
    case False
    with assms(1) show ?thesis
      unfolding lfo_routed_def c o
      by (auto simp: set_targets_lfo_edge outgoing_def less_Suc_eq split: if_splits)
  qed
qed

lemma graph_inv_createOscillator:
  "graph_inv d s \<Longrightarrow> lfo_destination (lfo r) = d \<Longrightarrow> graph_inv d (createOscillator now r n s)"
  by (simp add: graph_inv_def voices_wf_createOscillator lfo_routed_createOscillator)

lemma createOscillator_fields [simp]:
  "lfo (createOscillator now r n s) = lfo s"
  "pressedKeys (createOscillator now r n s) = pressedKeys s"
  "pressedKeysId (createOscillator now r n s) = pressedKeysId s"
  "currentNote (createOscillator now r n s) = currentNote s"
  "control (createOscillator now r n s) = control s"
  "envelope (createOscillator now r n s) = envelope s"
  "envelopeRef (createOscillator now r n s) = envelopeRef s"
  "arpClockRef (createOscillator now r n s) = arpClockRef s"
proof -
  consider "note_frequency n = None \<or> note_frequency n = Some 0"
    | f where "note_frequency n = Some f" "f \<noteq> 0"
    by (cases "note_frequency n") auto
  then have "lfo (createOscillator now r n s) = lfo s
     \<and> pressedKeys (createOscillator now r n s) = pressedKeys s
     \<and> pressedKeysId (createOscillator now r n s) = pressedKeysId s
     \<and> currentNote (createOscillator now r n s) = currentNote s
     \<and> control (createOscillator now r n s) = control s
     \<and> envelope (createOscillator now r n s) = envelope s
     \<and> envelopeRef (createOscillator now r n s) = envelopeRef s
     \<and> arpClockRef (createOscillator now r n s) = arpClockRef s"
  proof cases
    case 1
    then show ?thesis by (simp add: createOscillator_falsy)
  next
    case 2
    then show ?thesis by (simp add: createOscillator_eq)
  qed
  then show "lfo (createOscillator now r n s) = lfo s"
    "pressedKeys (createOscillator now r n s) = pressedKeys s"
    "pressedKeysId (createOscillator now r n s) = pressedKeysId s"
    "currentNote (createOscillator now r n s) = currentNote s"
    "control (createOscillator now r n s) = control s"
    "envelope (createOscillator now r n s) = envelope s"
    "envelopeRef (createOscillator now r n s) = envelopeRef s"
    "arpClockRef (createOscillator now r n s) = arpClockRef s"
    by simp_all
qed

lemma graph_inv_destroyOscillator [simp]:
  "graph_inv d (destroyOscillator now k s) = graph_inv d s"
  by (rule graph_inv_cong) simp_all

lemma graph_inv_setPressedKeys [simp]:
  "graph_inv d (setPressedKeys ks s) = graph_inv d s"
  by (rule graph_inv_cong) (simp_all add: setPressedKeys_def)

lemma graph_inv_stopNote [simp]:
  "graph_inv d (stopNote now r k force s) = graph_inv d s"
  by (simp add: stopNote_def)

lemma setPressedKeys_fields [simp]:
  "lfo (setPressedKeys ks s) = lfo s"
  "envelope (setPressedKeys ks s) = envelope s"
  "envelopeRef (setPressedKeys ks s) = envelopeRef s"
  by (simp_all add: setPressedKeys_def)

lemma stopNote_fields [simp]:
  "lfo (stopNote now r k force s) = lfo s"
  "envelope (stopNote now r k force s) = envelope s"
  "envelopeRef (stopNote now r k force s) = envelopeRef s"
  by (simp_all add: stopNote_def)

lemma graph_inv_stop_all [simp]:
  "graph_inv d (foldl (\<lambda>h k. stopNote now r k True h) s ks) = graph_inv d s"
  by (induction ks arbitrary: s) simp_all

lemma graph_inv_destroy_all [simp]:
  "graph_inv d (foldl (\<lambda>h k. destroyOscillator now k h) s ks) = graph_inv d s"
  by (induction ks arbitrary: s) simp_all

lemma graph_inv_create_all:
  "graph_inv d s \<Longrightarrow> lfo_destination (lfo r) = d \<Longrightarrow>
   graph_inv d (foldl (\<lambda>h k. createOscillator now r k h) s ks)"
  by (induction ks arbitrary: s) (simp_all add: graph_inv_createOscillator)

lemma fold_fields [simp]:
  "lfo (foldl (\<lambda>h k. stopNote now r k True h) s ks) = lfo s"
  "lfo (foldl (\<lambda>h k. destroyOscillator now k h) s ks) = lfo s"
  "lfo (foldl (\<lambda>h k. createOscillator now r k h) s ks) = lfo s"
  by (induction ks arbitrary: s) simp_all

lemma graph_inv_update [simp]:
  "graph_inv d (s\<lparr>currentNote := c\<rparr>) = graph_inv d s"
  "graph_inv d (s\<lparr>control := ct\<rparr>) = graph_inv d s"
  "graph_inv d (s\<lparr>arpClockRef := b\<rparr>) = graph_inv d s"
  "graph_inv d (s\<lparr>vcas := vs\<rparr>) = graph_inv d s"
  by (rule graph_inv_cong; simp)+

lemma graph_inv_playNote:
  "graph_inv d s \<Longrightarrow> lfo_destination (lfo r) = d \<Longrightarrow> graph_inv d (playNote now r n s)"
  by (simp add: playNote_def Let_def graph_inv_createOscillator)

lemma graph_inv_handleControlChange:
  "graph_inv d s \<Longrightarrow> lfo_destination (lfo r) = d \<Longrightarrow>
   graph_inv d (handleControlChange now r c s)"
  by (simp add: handleControlChange_def Let_def graph_inv_create_all)

lemma graph_inv_handleEscape [simp]:
  "graph_inv d (handleEscape now r s) = graph_inv d s"
  by (simp add: handleEscape_def)

lemma targets_disconnect: "targets x (filter (\<lambda>e. fst e \<noteq> x) es) = []"
  by (induction es) (simp_all add: targets_def)

lemma targets_add_edge_first:
  assumes "targets x es = []"
  shows "targets x (add_edge (x, b) es) = [b]"
proof -
  have "(x, b) \<notin> set es"
  proof
    assume "(x, b) \<in> set es"
    then have "b \<in> set (targets x es)"
      by (force simp: targets_def)
    with assms show False by simp
  qed
  with assms show ?thesis
    by (simp add: add_edge_def targets_def)
qed

lemma handleLFOChange_outgoing:
  "outgoing LFOGain (handleLFOChange now r newLFO s) =
     (if lfo_destination (lfo r) \<noteq> lfo_destination newLFO
      then (if lfo_destination newLFO = ''filter'' then [FilterFrequency] else [])
      else outgoing LFOGain s)"
  by (simp add: handleLFOChange_def Let_def outgoing_def connect_def disconnect_def
      targets_disconnect targets_add_edge_first)

lemma handleLFOChange_fields [simp]:
  "lfo (handleLFOChange now r newLFO s) = newLFO"
  "voicesRef (handleLFOChange now r newLFO s) = voicesRef s"
  "vca_count (handleLFOChange now r newLFO s) = vca_count s"
  "osc_count (handleLFOChange now r newLFO s) = osc_count s"
  "envelope (handleLFOChange now r newLFO s) = envelope s"
  "envelopeRef (handleLFOChange now r newLFO s) = envelopeRef s"
  by (simp_all add: handleLFOChange_def Let_def connect_def disconnect_def)

lemma graph_inv_handleLFOChange:
  assumes "graph_inv (lfo_destination (lfo r)) s"
  shows "graph_inv (lfo_destination newLFO) (handleLFOChange now r newLFO s)"
  using assms
  by (auto simp: graph_inv_def voices_wf_def lfo_routed_def handleLFOChange_outgoing)

lemma playArpNote_Inr:
  assumes "playArpNote now r n s = Inr s'"
  shows "\<exists>vs. s' = (createOscillator now r n s)\<lparr>vcas := vs\<rparr>"
proof (cases "voicesRef (createOscillator now r n s) (note_name n)")
  case None
  with assms show ?thesis
    unfolding playArpNote_def Let_def by simp
next
  case (Some v)
  with assms have "(createOscillator now r n s)\<lparr>vcas := (vcas (createOscillator now r n s))
     (vca v := schedule (LinearRampToValueAtTime 0 (now + release (envelope r) + 1))
        (schedule (CancelAndHoldAtTime (now + 1)) (vcas (createOscillator now r n s) (vca v))))\<rparr> = s'"
    unfolding playArpNote_def Let_def by simp
  then show ?thesis by blast
qed

lemma graph_inv_playArpNote:
  assumes "graph_inv d s" and "lfo_destination (lfo r) = d" and "playArpNote now r n s = Inr s'"
  shows "graph_inv d s' \<and> lfo s' = lfo s"
proof -
  from playArpNote_Inr [OF assms(3)] obtain vs
    where s': "s' = (createOscillator now r n s)\<lparr>vcas := vs\<rparr>" ..
  show ?thesis
    unfolding s' using graph_inv_createOscillator [OF assms(1,2), of now n] by simp
qed

lemma arpEffect_Inr:
  assumes "arpEffect now r = Inr s'"
  shows "s' = r\<lparr>arpClockRef := False\<rparr> \<or> s' = r\<lparr>arpClockRef := True\<rparr>
       \<or> (\<exists>n s''. playArpNote now r n (r\<lparr>arpClockRef := False\<rparr>) = Inr s''
              \<and> s' = s''\<lparr>arpClockRef := True\<rparr>)"
proof (cases "arp (control r) \<and> length (pressedKeys r) > 0")
  case False
  with assms show ?thesis
    unfolding arpEffect_def Let_def by auto
next
  case True
  show ?thesis
  proof (cases "arpNote r")
    case None
    with True assms show ?thesis
      unfolding arpEffect_def Let_def by auto
  next
    case (Some n)
    show ?thesis
    proof (cases "playArpNote now r n (r\<lparr>arpClockRef := False\<rparr>)")
      case (Inl e)
      with True Some assms show ?thesis
        unfolding arpEffect_def Let_def by simp
    next
      case (Inr s'')
      with True Some assms have "s' = s''\<lparr>arpClockRef := True\<rparr>"
        unfolding arpEffect_def Let_def by simp
      with Inr show ?thesis by blast
    qed
  qed
qed

lemma graph_inv_arpEffect:
  assumes "graph_inv (lfo_destination (lfo r)) r" and "arpEffect now r = Inr s'"
  shows "graph_inv (lfo_destination (lfo s')) s'"
proof -
  have g: "graph_inv (lfo_destination (lfo r)) (r\<lparr>arpClockRef := False\<rparr>)"
    using assms(1) by simp
  from arpEffect_Inr [OF assms(2)] consider
      "s' = r\<lparr>arpClockRef := False\<rparr>" | "s' = r\<lparr>arpClockRef := True\<rparr>"
    | n s'' where "playArpNote now r n (r\<lparr>arpClockRef := False\<rparr>) = Inr s''"
        "s' = s''\<lparr>arpClockRef := True\<rparr>"
    by blast
  then show ?thesis
  proof cases
    case 1
    with assms(1) show ?thesis by simp
  next
    case 2
    with assms(1) show ?thesis by simp
  next
    case 3
    from graph_inv_playArpNote [OF g refl 3(1)] show ?thesis
      unfolding 3(2) by simp
  qed
qed

lemma playNote_lfo [simp]: "lfo (playNote now r n s) = lfo s"
  by (simp add: playNote_def Let_def)

lemma handleControlChange_lfo [simp]: "lfo (handleControlChange now r c s) = lfo s"
  by (simp add: handleControlChange_def Let_def)

lemma handleEscape_lfo [simp]: "lfo (handleEscape now r s) = lfo s"
  by (simp add: handleEscape_def)

lemma graph_inv_handler:
  assumes "graph_inv (lfo_destination (lfo r)) r"
  shows "graph_inv (lfo_destination (lfo (handler now ev r))) (handler now ev r)"
proof (cases ev)
  case (PlayNote n)
  with assms show ?thesis by (simp add: graph_inv_playNote)
next
  case (StopNote n)
  with assms show ?thesis by simp
next
  case Escape
  with assms show ?thesis by simp
next
  case (ControlChange c)
  with assms show ?thesis by (simp add: graph_inv_handleControlChange)
next
  case (LFOChange l)
  with assms show ?thesis by (simp add: graph_inv_handleLFOChange)
next
  case (Osc1Change p)
  have "graph_inv d (handleOsc1Change p r) = graph_inv d r" for d
    by (rule graph_inv_cong) (simp_all add: handleOsc1Change_def)
  with assms Osc1Change show ?thesis by (simp add: handleOsc1Change_def)
next
  case (Osc2Change p)
  have "graph_inv d (handleOsc2Change p r) = graph_inv d r" for d
    by (rule graph_inv_cong) (simp_all add: handleOsc2Change_def)
  with assms Osc2Change show ?thesis by (simp add: handleOsc2Change_def)
next
  case (AmpChange a)
  have "graph_inv d (handleAmpChange a r) = graph_inv d r" for d
    by (rule graph_inv_cong) (simp_all add: handleAmpChange_def)
  with assms AmpChange show ?thesis by (simp add: handleAmpChange_def)
next
  case (FilterChange f)
  have "graph_inv d (handleFilterChange now r f r) = graph_inv d r" for d
    by (rule graph_inv_cong) (simp_all add: handleFilterChange_def Let_def)
  with assms FilterChange show ?thesis by (simp add: handleFilterChange_def Let_def)
next
  case (EnvelopeChange e)
  have "graph_inv d (handleEnvelopeChange e r) = graph_inv d r" for d
    by (rule graph_inv_cong) (simp_all add: handleEnvelopeChange_def)
  with assms EnvelopeChange show ?thesis by (simp add: handleEnvelopeChange_def)
next
  case (DelayChange dl)
  have "graph_inv d (handleDelayChange r dl r) = graph_inv d r" for d
    by (rule graph_inv_cong) (simp_all add: handleDelayChange_def Let_def)
  with assms DelayChange show ?thesis by (simp add: handleDelayChange_def Let_def)
next
  case (MidiNotePlayed n)
  with assms show ?thesis by (simp add: graph_inv_createOscillator)
next
  case (MidiNoteStopped n)
  with assms show ?thesis by simp
next
  case ArpTimeout
  have "graph_inv d (arpTimeout r r) = graph_inv d r" for d
    by (rule graph_inv_cong) (simp_all add: arpTimeout_def Let_def)
  with assms ArpTimeout show ?thesis by (simp add: arpTimeout_def Let_def)
qed

lemma graph_inv_step:
  assumes "graph_inv (lfo_destination (lfo r)) r" and "step now ev r = Inr s"
  shows "graph_inv (lfo_destination (lfo s)) s"
proof (cases "depsChanged r (handler now ev r)")
  case True
  with assms(2) have "arpEffect now (handler now ev r) = Inr s"
    by (simp add: step_def)
  from graph_inv_arpEffect [OF graph_inv_handler [OF assms(1)] this] show ?thesis .
next
  case False
  with assms(2) have "s = handler now ev r"
    by (simp add: step_def)
  with graph_inv_handler [OF assms(1)] show ?thesis by simp
qed

lemma graph_inv_run:
  assumes "graph_inv (lfo_destination (lfo r)) r" and "run evs r = Inr s"
  shows "graph_inv (lfo_destination (lfo s)) s"
  using assms
proof (induction evs arbitrary: r)
  case Nil
  then show ?case by simp
next
  case (Cons e evs)
  obtain now ev where e: "e = (now, ev)" by (cases e)
  from Cons.prems(2) obtain r' where r': "step now ev r = Inr r'" "run evs r' = Inr s"
    by (auto simp: e split: sum.splits)
  from graph_inv_step [OF Cons.prems(1) r'(1)] Cons.IH r'(2) show ?case by blast
qed

lemma graph_inv_mounted: "graph_inv (lfo_destination (lfo (mounted t0))) (mounted t0)"
  by (simp add: graph_inv_def voices_wf_def lfo_routed_def mounted_def DEFAULTS_lfo_def
      outgoing_def targets_def)

text \<open>
  No code of the component calls \<^verbatim>\<open>stop()\<close> on an oscillator or \<^verbatim>\<open>disconnect()\<close> on a
  node of a voice. Along every run every chain ever allocated stays wired.
\<close>

lemma chains_inv_cong:
  assumes "oscillators s' = oscillators s" "osc_count s' = osc_count s"
    "vca_count s' = vca_count s" "connections s' = connections s"
  shows "chains_inv s' = chains_inv s"
  using assms by (simp add: chains_inv_def chain_wired_def)

lemma set_add_edge: "set (add_edge e es) = insert e (set es)"
  by (auto simp: add_edge_def)

lemma set_lfo_edge: "set es \<subseteq> set (lfo_edge d w i es)"
  by (auto simp: lfo_edge_def set_add_edge)

lemma createOscillator_graph:
  assumes "note_frequency n = Some f" and "f \<noteq> 0"
  shows "set (connections s) \<subseteq> set (connections (createOscillator now r n s))"
    and "(Oscillator (osc_count s), Input (Gain (vca_count s)))
           \<in> set (connections (createOscillator now r n s))"
    and "(Oscillator (Suc (osc_count s)), Input (Gain (vca_count s)))
           \<in> set (connections (createOscillator now r n s))"
    and "(Gain (vca_count s), Input Filter) \<in> set (connections (createOscillator now r n s))"
    and "on_started (oscillators (createOscillator now r n s) (osc_count s))"
    and "on_started (oscillators (createOscillator now r n s) (Suc (osc_count s)))"
    and "\<And>i. i < osc_count s \<Longrightarrow>
           oscillators (createOscillator now r n s) i = oscillators s i"
    and "osc_count (createOscillator now r n s) = Suc (Suc (osc_count s))"
    and "vca_count (createOscillator now r n s) = Suc (vca_count s)"
proof -
  have "set (connections s) \<subseteq> set (lfo_edge (lfo_destination (lfo r)) ''osc2'' (Suc (osc_count s))
      (lfo_edge (lfo_destination (lfo r)) ''osc1'' (osc_count s) (connections s)))"
    using set_lfo_edge by (rule order_trans) (rule set_lfo_edge)
  then show "set (connections s) \<subseteq> set (connections (createOscillator now r n s))"
    by (auto simp: createOscillator_eq [OF assms] set_add_edge)
qed (simp_all add: createOscillator_eq [OF assms] set_add_edge)

lemma chain_wired_createOscillator_old:
  assumes "chain_wired v s" and "Suc (2 * v) < osc_count s"
  shows "chain_wired v (createOscillator now r n s)"
proof (cases "note_frequency n = None \<or> note_frequency n = Some 0")
  case True
  with assms show ?thesis by (simp add: createOscillator_falsy)
next
  case False
  then obtain f where f: "note_frequency n = Some f" "f \<noteq> 0" by auto
  from assms(2) have "2 * v < osc_count s" by simp
  with assms createOscillator_graph(1,7) [OF f, where s = s and now = now and r = r] show ?thesis
    unfolding chain_wired_def by auto
qed

lemma chains_inv_createOscillator:
  assumes "chains_inv s"
  shows "chains_inv (createOscillator now r n s)"
proof (cases "note_frequency n = None \<or> note_frequency n = Some 0")
  case True
  with assms show ?thesis by (simp add: createOscillator_falsy)
next
  case False
  then obtain f where f: "note_frequency n = Some f" "f \<noteq> 0" by auto
  from assms have oc: "osc_count s = 2 * vca_count s"
    and w: "\<And>v. v < vca_count s \<Longrightarrow> chain_wired v s"
    by (simp_all add: chains_inv_def)
  have new: "chain_wired (vca_count s) (createOscillator now r n s)"
    using createOscillator_graph(2-6) [OF f, where s = s and now = now and r = r]
    unfolding chain_wired_def oc by simp
  have old: "chain_wired v (createOscillator now r n s)" if "v < vca_count s" for v
  proof -
    from that oc have "Suc (2 * v) < osc_count s" by simp
    from chain_wired_createOscillator_old [OF w [OF that] this] show ?thesis .
  qed
  show ?thesis
    unfolding chains_inv_def createOscillator_graph(8,9) [OF f]
    using oc new old by (auto simp: less_Suc_eq)
qed

lemma chains_inv_destroyOscillator [simp]:
  "chains_inv (destroyOscillator now k s) = chains_inv s"
  by (rule chains_inv_cong) (simp_all add: destroyOscillator_eq)

lemma chains_inv_setPressedKeys [simp]:
  "chains_inv (setPressedKeys ks s) = chains_inv s"
  by (rule chains_inv_cong) (simp_all add: setPressedKeys_def)

lemma chains_inv_stopNote [simp]:
  "chains_inv (stopNote now r k force s) = chains_inv s"
  by (simp add: stopNote_def)

lemma chains_inv_stop_all [simp]:
  "chains_inv (foldl (\<lambda>h k. stopNote now r k True h) s ks) = chains_inv s"
  by (induction ks arbitrary: s) simp_all

lemma chains_inv_destroy_all [simp]:
  "chains_inv (foldl (\<lambda>h k. destroyOscillator now k h) s ks) = chains_inv s"
  by (induction ks arbitrary: s) simp_all

lemma chains_inv_create_all:
  "chains_inv s \<Longrightarrow> chains_inv (foldl (\<lambda>h k. createOscillator now r k h) s ks)"
  by (induction ks arbitrary: s) (simp_all add: chains_inv_createOscillator)

lemma chains_inv_update [simp]:
  "chains_inv (s\<lparr>currentNote := c\<rparr>) = chains_inv s"
  "chains_inv (s\<lparr>control := ct\<rparr>) = chains_inv s"
  "chains_inv (s\<lparr>arpClockRef := b\<rparr>) = chains_inv s"
  "chains_inv (s\<lparr>vcas := vs\<rparr>) = chains_inv s"
  by (rule chains_inv_cong; simp)+

lemma chains_inv_playNote:
  "chains_inv s \<Longrightarrow> chains_inv (playNote now r n s)"
  by (simp add: playNote_def Let_def chains_inv_createOscillator)

lemma chains_inv_handleControlChange:
  "chains_inv s \<Longrightarrow> chains_inv (handleControlChange now r c s)"
  by (simp add: handleControlChange_def Let_def chains_inv_create_all)

lemma chains_inv_handleEscape [simp]:
  "chains_inv (handleEscape now r s) = chains_inv s"
  by (simp add: handleEscape_def)

lemma handleLFOChange_edges:
  assumes "a \<noteq> LFOGain"
  shows "(a, b) \<in> set (connections (handleLFOChange now r newLFO s)) \<longleftrightarrow>
         (a, b) \<in> set (connections s)"
  using assms
  by (auto simp: handleLFOChange_def Let_def connect_def disconnect_def set_add_edge)

lemma chains_inv_handleLFOChange:
  assumes "chains_inv s"
  shows "chains_inv (handleLFOChange now r newLFO s)"
proof -
  have o: "oscillators (handleLFOChange now r newLFO s) = oscillators s"
    by (simp add: handleLFOChange_def Let_def connect_def disconnect_def)
  show ?thesis
    using assms
    by (simp add: chains_inv_def chain_wired_def handleLFOChange_edges o)
qed

lemma chains_inv_playArpNote:
  assumes "chains_inv s" and "playArpNote now r n s = Inr s'"
  shows "chains_inv s'"
proof -
  from playArpNote_Inr [OF assms(2)] obtain vs
    where s': "s' = (createOscillator now r n s)\<lparr>vcas := vs\<rparr>" ..
  show ?thesis
    unfolding s' using chains_inv_createOscillator [OF assms(1), of now r n] by simp
qed

lemma chains_inv_arpEffect:
  assumes "chains_inv r" and "arpEffect now r = Inr s'"
  shows "chains_inv s'"
proof -
  have g: "chains_inv (r\<lparr>arpClockRef := False\<rparr>)"
    using assms(1) by simp
  from arpEffect_Inr [OF assms(2)] consider
      "s' = r\<lparr>arpClockRef := False\<rparr>" | "s' = r\<lparr>arpClockRef := True\<rparr>"
    | n s'' where "playArpNote now r n (r\<lparr>arpClockRef := False\<rparr>) = Inr s''"
        "s' = s''\<lparr>arpClockRef := True\<rparr>"
    by blast
  then show ?thesis
  proof cases
    case 1
    with assms(1) show ?thesis by simp
  next
    case 2
    with assms(1) show ?thesis by simp
  next
    case 3
    from chains_inv_playArpNote [OF g 3(1)] show ?thesis
      unfolding 3(2) by simp
  qed
qed

lemma chains_inv_handler:
  assumes "chains_inv r"
  shows "chains_inv (handler now ev r)"
proof (cases ev)
  case (PlayNote n)
  with assms show ?thesis by (simp add: chains_inv_playNote)
next
  case (ControlChange c)
  with assms show ?thesis by (simp add: chains_inv_handleControlChange)
next
  case (LFOChange l)
  with assms show ?thesis by (simp add: chains_inv_handleLFOChange)
next
  case (Osc1Change p)
  have "chains_inv (handleOsc1Change p r) = chains_inv r"
    by (rule chains_inv_cong) (simp_all add: handleOsc1Change_def)
  with assms Osc1Change show ?thesis by simp
next
  case (Osc2Change p)
  have "chains_inv (handleOsc2Change p r) = chains_inv r"
    by (rule chains_inv_cong) (simp_all add: handleOsc2Change_def)
  with assms Osc2Change show ?thesis by simp
next
  case (AmpChange a)
  have "chains_inv (handleAmpChange a r) = chains_inv r"
    by (rule chains_inv_cong) (simp_all add: handleAmpChange_def)
  with assms AmpChange show ?thesis by simp
next
  case (FilterChange f)
  have "chains_inv (handleFilterChange now r f r) = chains_inv r"
    by (rule chains_inv_cong) (simp_all add: handleFilterChange_def Let_def)
  with assms FilterChange show ?thesis by simp
next
  case (EnvelopeChange e)
  have "chains_inv (handleEnvelopeChange e r) = chains_inv r"
    by (rule chains_inv_cong) (simp_all add: handleEnvelopeChange_def)
  with assms EnvelopeChange show ?thesis by simp
next
  case (DelayChange dl)
  have "chains_inv (handleDelayChange r dl r) = chains_inv r"
    by (rule chains_inv_cong) (simp_all add: handleDelayChange_def Let_def)
  with assms DelayChange show ?thesis by simp
next
  case (MidiNotePlayed n)
  with assms show ?thesis by (simp add: chains_inv_createOscillator)
next
  case ArpTimeout
  have "chains_inv (arpTimeout r r) = chains_inv r"
    by (rule chains_inv_cong) (simp_all add: arpTimeout_def Let_def)
  with assms ArpTimeout show ?thesis by simp
qed (use assms in simp_all)

lemma chains_inv_step:
  assumes "chains_inv r" and "step now ev r = Inr s"
  shows "chains_inv s"
proof (cases "depsChanged r (handler now ev r)")
  case True
  with assms(2) have "arpEffect now (handler now ev r) = Inr s"
    by (simp add: step_def)
  from chains_inv_arpEffect [OF chains_inv_handler [OF assms(1)] this] show ?thesis .
next
  case False
  with assms(2) have "s = handler now ev r"
    by (simp add: step_def)
  with chains_inv_handler [OF assms(1)] show ?thesis by simp
qed

lemma chains_inv_run:
  assumes "chains_inv r" and "run evs r = Inr s"
  shows "chains_inv s"
  using assms
proof (induction evs arbitrary: r)
  case Nil
  then show ?case by simp
next
  case (Cons e evs)
  obtain now ev where e: "e = (now, ev)" by (cases e)
  from Cons.prems(2) obtain r' where r': "step now ev r = Inr r'" "run evs r' = Inr s"
    by (auto simp: e split: sum.splits)
  from Cons.IH [OF chains_inv_step [OF Cons.prems(1) r'(1)] r'(2)] show ?case .
qed

lemma chains_inv_mounted: "chains_inv (mounted t0)"
  by (simp add: chains_inv_def mounted_def)

text \<open>
  C1. The claim says that \<^verbatim>\<open>createOscillator\<close>, called for a note that already has a
  voice, force-stops and discards the existing voice and never stacks two voices under one
  name. In the code the old voice only gets the cancel and the release ramp of
  \<^verbatim>\<open>destroyOscillator\<close>. Here the release is 5 seconds and A4 is pressed at 0, released
  at 1 and pressed again at 2: the map then holds VCA 1 for A4, while the two oscillators of
  the old chain are still started and connected to VCA 0, VCA 0 is still connected to the
  filter beside VCA 1, and its gain ramps to 0 only at time 7.
\<close>

theorem retrigger_leaves_old_chain_wired:
  "retriggered = Inr (projr retriggered)
   \<and> voicesRef (projr retriggered) ''A4'' = Some \<lparr>vca = 1\<rparr>
   \<and> vca_count (projr retriggered) = 2
   \<and> events (vcas (projr retriggered) 0) =
        [SetValueAtTime 0 0, LinearRampToValueAtTime 0.1 0, LinearRampToValueAtTime 0.2 0.5,
         CancelAndHoldAtTime 1, LinearRampToValueAtTime 0 6,
         CancelAndHoldAtTime 2, LinearRampToValueAtTime 0 7]
   \<and> on_started (oscillators (projr retriggered) 0)
   \<and> on_started (oscillators (projr retriggered) 1)
   \<and> (Oscillator 0, Input (Gain 0)) \<in> set (connections (projr retriggered))
   \<and> (Oscillator 1, Input (Gain 0)) \<in> set (connections (projr retriggered))
   \<and> (Gain 0, Input Filter) \<in> set (connections (projr retriggered))
   \<and> (Gain 1, Input Filter) \<in> set (connections (projr retriggered))"
proof -
  have "retriggered = Inr (projr retriggered)"
    by (simp add: retriggered_def slow_release_def handleEnvelopeChange_def run_eval)
  moreover have "voicesRef (projr retriggered) ''A4'' = Some \<lparr>vca = 1\<rparr>"
    by (simp add: retriggered_def slow_release_def handleEnvelopeChange_def run_eval)
  moreover have "vca_count (projr retriggered) = 2"
    by (simp add: retriggered_def slow_release_def handleEnvelopeChange_def run_eval)
  moreover have "events (vcas (projr retriggered) 0) =
        [SetValueAtTime 0 0, LinearRampToValueAtTime 0.1 0, LinearRampToValueAtTime 0.2 0.5,
         CancelAndHoldAtTime 1, LinearRampToValueAtTime 0 6,
         CancelAndHoldAtTime 2, LinearRampToValueAtTime 0 7]"
    by (simp add: retriggered_def slow_release_def handleEnvelopeChange_def run_eval)
  moreover have "on_started (oscillators (projr retriggered) 0)
      \<and> on_started (oscillators (projr retriggered) 1)"
    by (simp add: retriggered_def slow_release_def handleEnvelopeChange_def run_eval)
  moreover have "(Oscillator 0, Input (Gain 0)) \<in> set (connections (projr retriggered))
      \<and> (Oscillator 1, Input (Gain 0)) \<in> set (connections (projr retriggered))
      \<and> (Gain 0, Input Filter) \<in> set (connections (projr retriggered))
      \<and> (Gain 1, Input Filter) \<in> set (connections (projr retriggered))"
    by (simp add: retriggered_def slow_release_def handleEnvelopeChange_def run_eval
        set_add_edge lfo_edge_def DEFAULTS_lfo_def)
  ultimately show ?thesis
    by simp
qed

text \<open>
  C1 as the code has it. In every state that a sequence of events reaches from the
  mounted component, a note name has at most one voice in the voice map (the map is keyed
  by the name), no VCA is registered under two names, every registered VCA is allocated,
  and the chain of every VCA ever allocated is still wired. When \<^verbatim>\<open>createOscillator\<close>
  is called for a note that already has a voice, it first calls \<^verbatim>\<open>destroyOscillator\<close>
  on it, so the old VCA gets the cancel and the release ramp over the release in force;
  then the entry of the name is the new VCA and no name refers to the old one any more.
  The old chain is not stopped or disconnected: it stays wired beside the new chain.
\<close>

theorem voice_map_along_runs:
  assumes "run evs (mounted t0) = Inr s"
  shows "(\<forall>name. card {v. voicesRef s name = Some v} \<le> 1)
       \<and> (\<forall>n m v. voicesRef s n = Some v \<and> voicesRef s m = Some v \<longrightarrow> n = m)
       \<and> (\<forall>n v. voicesRef s n = Some v \<longrightarrow> vca v < vca_count s)
       \<and> (\<forall>v < vca_count s. chain_wired v s)
       \<and> (\<forall>now n f old.
             note_frequency n = Some f \<and> f \<noteq> 0 \<and> voicesRef s (note_name n) = Some old \<longrightarrow>
               vcas (createOscillator now s n s) (vca old) =
                 (vcas s (vca old))\<lparr>events := events (vcas s (vca old)) @
                    [CancelAndHoldAtTime now,
                     LinearRampToValueAtTime 0 (now + release (envelopeRef s))]\<rparr>
             \<and> voicesRef (createOscillator now s n s) =
                 (voicesRef s)(note_name n \<mapsto> \<lparr>vca = vca_count s\<rparr>)
             \<and> vca old \<noteq> vca_count s
             \<and> (\<forall>m. voicesRef (createOscillator now s n s) m \<noteq> Some old)
             \<and> chain_wired (vca old) (createOscillator now s n s)
             \<and> chain_wired (vca_count s) (createOscillator now s n s))"
proof -
  from graph_inv_run [OF graph_inv_mounted assms] have wf: "voices_wf s"
    by (simp add: graph_inv_def)
  from chains_inv_run [OF chains_inv_mounted assms] have ci: "chains_inv s" .
  then have wired: "\<forall>v < vca_count s. chain_wired v s"
    by (simp add: chains_inv_def)
  have one: "card {v. voicesRef s name = Some v} \<le> 1" for name
  proof (cases "voicesRef s name")
    case None
    then show ?thesis by simp
  next
    case (Some w)
    then have "{v. voicesRef s name = Some v} = {w}" by auto
    then show ?thesis by simp
  qed
  have re: "vcas (createOscillator now s n s) (vca old) =
                 (vcas s (vca old))\<lparr>events := events (vcas s (vca old)) @
                    [CancelAndHoldAtTime now,
                     LinearRampToValueAtTime 0 (now + release (envelopeRef s))]\<rparr>
             \<and> voicesRef (createOscillator now s n s) =
                 (voicesRef s)(note_name n \<mapsto> \<lparr>vca = vca_count s\<rparr>)
             \<and> vca old \<noteq> vca_count s
             \<and> (\<forall>m. voicesRef (createOscillator now s n s) m \<noteq> Some old)
             \<and> chain_wired (vca old) (createOscillator now s n s)
             \<and> chain_wired (vca_count s) (createOscillator now s n s)"
    if f: "note_frequency n = Some f" "f \<noteq> 0" and old: "voicesRef s (note_name n) = Some old"
    for now n f old
  proof -
    from wf old have lt: "vca old < vca_count s"
      unfolding voices_wf_def by blast
    have only: "m = note_name n" if "voicesRef s m = Some old" for m
      using wf old that unfolding voices_wf_def by blast
    have v: "voicesRef (createOscillator now s n s) =
        (voicesRef s)(note_name n \<mapsto> \<lparr>vca = vca_count s\<rparr>)"
      by (simp add: createOscillator_eq [OF f])
    have gone: "voicesRef (createOscillator now s n s) m \<noteq> Some old" for m
    proof (cases "m = note_name n")
      case True
      with lt show ?thesis unfolding v by auto
    next
      case False
      with only show ?thesis unfolding v by auto
    qed
    have rel: "vcas (createOscillator now s n s) (vca old) =
        (vcas s (vca old))\<lparr>events := events (vcas s (vca old)) @
           [CancelAndHoldAtTime now,
            LinearRampToValueAtTime 0 (now + release (envelopeRef s))]\<rparr>"
      using lt old by (simp add: createOscillator_eq [OF f] destroyOscillator_eq)
    from chains_inv_createOscillator [OF ci, of now s n]
    have "\<forall>v < Suc (vca_count s). chain_wired v (createOscillator now s n s)"
      by (simp add: chains_inv_def createOscillator_graph(9) [OF f])
    with lt have "chain_wired (vca old) (createOscillator now s n s)"
      and "chain_wired (vca_count s) (createOscillator now s n s)"
      by simp_all
    with gone rel v lt show ?thesis
      by simp
  qed
  from wf one wired re show ?thesis
    unfolding voices_wf_def by blast
qed

text \<open>A key is pressed at time 0 and its note is created again at time 1.\<close>

theorem voice_map_along_runs_witness:
  "run [(0, PlayNote noteA4)] (mounted 0) = Inr (projr one_pressed)
   \<and> voicesRef (projr one_pressed) ''A4'' = Some \<lparr>vca = 0\<rparr>
   \<and> vca_count (projr one_pressed) = 1
   \<and> voicesRef (createOscillator 1 (projr one_pressed) noteA4 (projr one_pressed)) ''A4'' =
        Some \<lparr>vca = 1\<rparr>
   \<and> events (vcas (createOscillator 1 (projr one_pressed) noteA4 (projr one_pressed)) 0) =
        [SetValueAtTime 0 0, LinearRampToValueAtTime 0.1 0, LinearRampToValueAtTime 0.2 0.5,
         CancelAndHoldAtTime 1, LinearRampToValueAtTime 0 1]
   \<and> chain_wired 0 (createOscillator 1 (projr one_pressed) noteA4 (projr one_pressed))
   \<and> chain_wired 1 (createOscillator 1 (projr one_pressed) noteA4 (projr one_pressed))"
proof -
  have h: "run [(0, PlayNote noteA4)] (mounted 0) = Inr (projr one_pressed)"
    by (simp add: one_pressed_def run_eval)
  have v: "voicesRef (projr one_pressed) ''A4'' = Some \<lparr>vca = 0\<rparr>"
    by (simp add: one_pressed_def run_eval)
  have c: "vca_count (projr one_pressed) = 1"
    by (simp add: one_pressed_def run_eval)
  have e: "events (vcas (projr one_pressed) 0) =
      [SetValueAtTime 0 0, LinearRampToValueAtTime 0.1 0, LinearRampToValueAtTime 0.2 0.5]"
    by (simp add: one_pressed_def run_eval)
  have r: "release (envelopeRef (projr one_pressed)) = 0"
    by (simp add: one_pressed_def run_eval)
  have n: "note_frequency noteA4 = Some 440 \<and> (440::real) \<noteq> 0
      \<and> voicesRef (projr one_pressed) (note_name noteA4) = Some \<lparr>vca = 0\<rparr>"
    using v by (simp add: noteA4_def)
  from voice_map_along_runs [OF h, THEN conjunct2, THEN conjunct2, THEN conjunct2,
      THEN conjunct2, rule_format, OF n, of 1]
  show ?thesis
    using h v c e r by (simp add: noteA4_def)
qed

section \<open>The edges that leave the LFO gain\<close>

lemmas lfo_eval =
  handleLFOChange_def connect_def disconnect_def add_edge_def targets_def outgoing_def
  lfo_edge_def DEFAULTS_lfo_def lfo_to_osc1_def

text \<open>
  C2. The claim says that the LFO gain always has exactly one outgoing connection. Once
  the destination is set to oscillator 1 the handler disconnects the gain and connects
  nothing, so the gain has no outgoing connection; each voice created afterwards connects
  the gain to the detune of its own first oscillator, so with two voices the gain has two.
\<close>

theorem lfo_gain_edges_not_one:
  "outgoing LFOGain (handler 1 (LFOChange lfo_to_osc1) (mounted 0)) = []
   \<and> lfo_on_osc1 = Inr (projr lfo_on_osc1)
   \<and> lfo_destination (lfo (projr lfo_on_osc1)) = ''osc1''
   \<and> outgoing LFOGain (projr lfo_on_osc1) = [Detune 0, Detune 2]"
proof -
  have "outgoing LFOGain (handler 1 (LFOChange lfo_to_osc1) (mounted 0)) = []"
    by (simp add: lfo_eval mounted_def Let_def)
  moreover have "lfo_on_osc1 = Inr (projr lfo_on_osc1)"
    by (simp add: lfo_on_osc1_def run_eval lfo_eval)
  moreover have "lfo_destination (lfo (projr lfo_on_osc1)) = ''osc1''"
    by (simp add: lfo_on_osc1_def run_eval lfo_eval)
  moreover have "outgoing LFOGain (projr lfo_on_osc1) = [Detune 0, Detune 2]"
    by (simp add: lfo_on_osc1_def run_eval lfo_eval)
  ultimately show ?thesis
    by simp
qed

text \<open>
  C2 as the code has it. In every state that a sequence of events reaches from the
  mounted component: when the destination last set is the filter, the LFO gain has
  exactly one outgoing connection, to the frequency of the filter; for any other
  destination all its connections lead to the detune of voice oscillators. A call of the
  handler with another destination disconnects every old edge and connects the gain to the
  filter frequency if that is the new destination, to nothing otherwise; a call with the
  same destination leaves the edges alone. While the destination is oscillator 1 (resp. 2)
  every voice created adds the edge to the detune of its first (resp. second) oscillator.
\<close>

theorem lfo_routing:
  assumes "run evs (mounted t0) = Inr s"
  shows "(lfo_destination (lfo s) = ''filter'' \<longrightarrow> outgoing LFOGain s = [FilterFrequency])
       \<and> (lfo_destination (lfo s) \<noteq> ''filter'' \<longrightarrow>
            (\<forall>p \<in> set (outgoing LFOGain s). \<exists>i < osc_count s. p = Detune i))
       \<and> (\<forall>now newLFO. lfo_destination newLFO \<noteq> lfo_destination (lfo s) \<longrightarrow>
            outgoing LFOGain (handleLFOChange now s newLFO s) =
              (if lfo_destination newLFO = ''filter'' then [FilterFrequency] else []))
       \<and> (\<forall>now newLFO. lfo_destination newLFO = lfo_destination (lfo s) \<longrightarrow>
            outgoing LFOGain (handleLFOChange now s newLFO s) = outgoing LFOGain s)
       \<and> (\<forall>now n f. note_frequency n = Some f \<and> f \<noteq> 0 \<longrightarrow>
            set (outgoing LFOGain (createOscillator now s n s)) =
              (if lfo_destination (lfo s) = ''osc1''
               then insert (Detune (osc_count s)) (set (outgoing LFOGain s))
               else if lfo_destination (lfo s) = ''osc2''
               then insert (Detune (Suc (osc_count s))) (set (outgoing LFOGain s))
               else set (outgoing LFOGain s)))"
proof -
  from graph_inv_run [OF graph_inv_mounted assms]
  have "lfo_routed (lfo_destination (lfo s)) s"
    by (simp add: graph_inv_def)
  then have a: "lfo_destination (lfo s) = ''filter'' \<longrightarrow> outgoing LFOGain s = [FilterFrequency]"
    and b: "lfo_destination (lfo s) \<noteq> ''filter'' \<longrightarrow>
            (\<forall>p \<in> set (outgoing LFOGain s). \<exists>i < osc_count s. p = Detune i)"
    by (simp_all add: lfo_routed_def)
  have c: "set (outgoing LFOGain (createOscillator now s n s)) =
              (if lfo_destination (lfo s) = ''osc1''
               then insert (Detune (osc_count s)) (set (outgoing LFOGain s))
               else if lfo_destination (lfo s) = ''osc2''
               then insert (Detune (Suc (osc_count s))) (set (outgoing LFOGain s))
               else set (outgoing LFOGain s))"
    if f: "note_frequency n = Some f" "f \<noteq> 0" for now n f
    by (simp add: createOscillator_eq [OF f] outgoing_def targets_add_edge_other
        set_targets_lfo_edge)
  from a b c show ?thesis
    by (simp add: handleLFOChange_outgoing)
qed

text \<open>The LFO is routed to oscillator 1, a voice is created, the LFO is routed back.\<close>

theorem lfo_routing_witness:
  "run [(1, LFOChange lfo_to_osc1), (2, PlayNote noteA4), (3, LFOChange DEFAULTS_lfo)]
     (mounted 0) = Inr (projr lfo_there_and_back)
   \<and> lfo_destination (lfo (projr lfo_there_and_back)) = ''filter''
   \<and> outgoing LFOGain (projr lfo_there_and_back) = [FilterFrequency]"
proof -
  have h: "run [(1, LFOChange lfo_to_osc1), (2, PlayNote noteA4), (3, LFOChange DEFAULTS_lfo)]
     (mounted 0) = Inr (projr lfo_there_and_back)"
    by (simp add: lfo_there_and_back_def run_eval lfo_eval)
  have d: "lfo_destination (lfo (projr lfo_there_and_back)) = ''filter''"
    by (simp add: lfo_there_and_back_def run_eval lfo_eval)
  from lfo_routing [OF h, THEN conjunct1, rule_format, OF d]
  show ?thesis
    using h d by simp
qed

section \<open>The two copies of the envelope\<close>

text \<open>
  \<^verbatim>\<open>createOscillator\<close> reads attack and decay from the ref and sustain from the state.
  The envelope handler sets both and nothing else sets either, so along every run from
  the mounted component they hold the same record.
\<close>

lemma fold_envelope [simp]:
  "envelope (foldl (\<lambda>h k. stopNote now r k True h) s ks) = envelope s"
  "envelopeRef (foldl (\<lambda>h k. stopNote now r k True h) s ks) = envelopeRef s"
  "envelope (foldl (\<lambda>h k. destroyOscillator now k h) s ks) = envelope s"
  "envelopeRef (foldl (\<lambda>h k. destroyOscillator now k h) s ks) = envelopeRef s"
  "envelope (foldl (\<lambda>h k. createOscillator now r k h) s ks) = envelope s"
  "envelopeRef (foldl (\<lambda>h k. createOscillator now r k h) s ks) = envelopeRef s"
  by (induction ks arbitrary: s) simp_all

lemma handlers_envelope [simp]:
  "envelope (playNote now r n s) = envelope s"
  "envelopeRef (playNote now r n s) = envelopeRef s"
  "envelope (handleControlChange now r c s) = envelope s"
  "envelopeRef (handleControlChange now r c s) = envelopeRef s"
  "envelope (handleEscape now r s) = envelope s"
  "envelopeRef (handleEscape now r s) = envelopeRef s"
  by (simp_all add: playNote_def handleControlChange_def handleEscape_def Let_def)

lemma envelope_handler:
  assumes "envelope r = envelopeRef r"
  shows "envelope (handler now ev r) = envelopeRef (handler now ev r)"
proof (cases ev)
  case (Osc1Change p)
  with assms show ?thesis by (simp add: handleOsc1Change_def)
next
  case (Osc2Change p)
  with assms show ?thesis by (simp add: handleOsc2Change_def)
next
  case (AmpChange a)
  with assms show ?thesis by (simp add: handleAmpChange_def)
next
  case (FilterChange f)
  with assms show ?thesis by (simp add: handleFilterChange_def Let_def)
next
  case (EnvelopeChange e)
  then show ?thesis by (simp add: handleEnvelopeChange_def)
next
  case (DelayChange d)
  with assms show ?thesis by (simp add: handleDelayChange_def Let_def)
next
  case ArpTimeout
  with assms show ?thesis by (simp add: arpTimeout_def Let_def)
qed (use assms in simp_all)

lemma envelope_arpEffect:
  assumes "envelope r = envelopeRef r" and "arpEffect now r = Inr s"
  shows "envelope s = envelopeRef s"
proof -
  from arpEffect_Inr [OF assms(2)] consider
      "s = r\<lparr>arpClockRef := False\<rparr>" | "s = r\<lparr>arpClockRef := True\<rparr>"
    | n s'' where "playArpNote now r n (r\<lparr>arpClockRef := False\<rparr>) = Inr s''"
        "s = s''\<lparr>arpClockRef := True\<rparr>"
    by blast
  then show ?thesis
  proof cases
    case 1
    with assms(1) show ?thesis by simp
  next
    case 2
    with assms(1) show ?thesis by simp
  next
    case 3
    from playArpNote_Inr [OF 3(1)] obtain vs
      where "s'' = (createOscillator now r n (r\<lparr>arpClockRef := False\<rparr>))\<lparr>vcas := vs\<rparr>" ..
    with 3(2) assms(1) show ?thesis by simp
  qed
qed

lemma envelope_run:
  assumes "envelope r = envelopeRef r" and "run evs r = Inr s"
  shows "envelope s = envelopeRef s"
  using assms
proof (induction evs arbitrary: r)
  case Nil
  then show ?case by simp
next
  case (Cons e evs)
  obtain now ev where e: "e = (now, ev)" by (cases e)
  from Cons.prems(2) obtain r' where r': "step now ev r = Inr r'" "run evs r' = Inr s"
    by (auto simp: e split: sum.splits)
  have "envelope r' = envelopeRef r'"
  proof (cases "depsChanged r (handler now ev r)")
    case True
    with r'(1) have "arpEffect now (handler now ev r) = Inr r'"
      by (simp add: step_def)
    from envelope_arpEffect [OF envelope_handler [OF Cons.prems(1)] this] show ?thesis .
  next
    case False
    with r'(1) have "r' = handler now ev r"
      by (simp add: step_def)
    with envelope_handler [OF Cons.prems(1)] show ?thesis by simp
  qed
  from Cons.IH [OF this r'(2)] show ?case .
qed

lemma envelope_reachable:
  "run evs (mounted t0) = Inr s \<Longrightarrow> envelope s = envelopeRef s"
  by (rule envelope_run [of "mounted t0"]) (simp_all add: mounted_def)

end
